theory Spec2Isabelle
  imports Main "HOL-Library.AList" "HOL-Library.Sublist"
begin

section \<open>JSON values and the JavaScript operators the handlers apply to them\<close>

text \<open>
  Request bodies and scan payloads are parsed JSON. An object is kept as its member list
  in source order; a repeated key takes its last value, as \<^verbatim>\<open>JSON.parse\<close> does.
  Numbers are the integers (timestamps, counters); \<^verbatim>\<open>undefined\<close> is \<open>None\<close> of
  \<open>json option\<close>.
\<close>

datatype json =
    JNull
  | JBool bool
  | JNum int
  | JStr string
  | JArr "json list"
  | JObj "(string \<times> json) list"

type_synonym jobject = "(string \<times> json) list"

text \<open>\<^verbatim>\<open>!v\<close> is \<open>\<not> truthy v\<close>.\<close>

fun truthy :: "json \<Rightarrow> bool" where
  "truthy JNull = False"
| "truthy (JBool b) = b"
| "truthy (JNum n) = (n \<noteq> 0)"
| "truthy (JStr s) = (s \<noteq> [])"
| "truthy (JArr xs) = True"
| "truthy (JObj kvs) = True"

definition truthy_opt :: "json option \<Rightarrow> bool" where
  "truthy_opt v = (case v of None \<Rightarrow> False | Some j \<Rightarrow> truthy j)"

text \<open>A query parameter is a string or \<^verbatim>\<open>null\<close>; the empty string is falsy.\<close>

definition truthy_str :: "string option \<Rightarrow> bool" where
  "truthy_str q = (case q of None \<Rightarrow> False | Some t \<Rightarrow> t \<noteq> [])"

text \<open>
  \<^verbatim>\<open>v.k\<close> for a named key \<open>k\<close> on a value that is not \<^verbatim>\<open>null\<close>: only objects
  have such members (the handlers never read \<^verbatim>\<open>length\<close> or an index).
\<close>

fun jget :: "json \<Rightarrow> string \<Rightarrow> json option" where
  "jget (JObj kvs) k = map_of (rev kvs) k"
| "jget v k = None"

function decimal :: "int \<Rightarrow> string" where
  "decimal n =
     (if n < 10 then [''0123456789'' ! nat n]
      else decimal (n div 10) @ [''0123456789'' ! nat (n mod 10)])"
  by pat_completeness auto
termination
  by (relation "measure nat") auto

declare decimal.simps [simp del]

definition number_text :: "int \<Rightarrow> string" where
  "number_text n = (if n < 0 then CHR ''-'' # decimal (- n) else decimal n)"

text \<open>
  The string a template literal \<^verbatim>\<open>`${v}`\<close> inserts. An object that carries its own
  \<^verbatim>\<open>toString\<close> member cannot be converted: the conversion throws, which is \<open>None\<close>.
\<close>

primrec js_string :: "json \<Rightarrow> string option" and js_join :: "json list \<Rightarrow> string option" where
  "js_string JNull = Some ''null''"
| "js_string (JBool b) = Some (if b then ''true'' else ''false'')"
| "js_string (JNum n) = Some (number_text n)"
| "js_string (JStr s) = Some s"
| "js_string (JArr xs) = js_join xs"
| "js_string (JObj kvs) =
     (if ''toString'' \<in> fst ` set kvs then None else Some ''[object Object]'')"
| "js_join [] = Some []"
| "js_join (x # ys) =
     (case (if x = JNull then Some [] else js_string x, js_join ys) of
        (Some a, Some b) \<Rightarrow> Some (if ys = [] then a else a @ '','' @ b)
      | _ \<Rightarrow> None)"

text \<open>The own enumerable members that \<^verbatim>\<open>{...v}\<close> copies, and the copy itself.\<close>

definition entries :: "json \<Rightarrow> jobject" where
  "entries v =
     (case v of
        JObj kvs \<Rightarrow> kvs
      | JArr xs \<Rightarrow> map (\<lambda>(i, x). (decimal (int i), x)) (enumerate 0 xs)
      | JStr s \<Rightarrow> map (\<lambda>(i, c). (decimal (int i), JStr [c])) (enumerate 0 s)
      | _ \<Rightarrow> [])"

definition spread :: "json \<Rightarrow> jobject \<Rightarrow> jobject" where
  "spread v obj = fold (\<lambda>(k, x). AList.update k x) (entries v) obj"


section \<open>The secure-results store (api/secure-results/route.js)\<close>

record pending_result =
  sessionId :: json
  merchantId :: "json option"
  scanData :: json
  voiceVerified :: bool
  createdAt :: int

record verified_result = pending_result +
  verificationId :: json
  verifiedAt :: int

text \<open>
  The two module-level \<^verbatim>\<open>Map\<close>s. A JavaScript \<^verbatim>\<open>Map\<close> iterates in insertion order,
  \<^verbatim>\<open>set\<close> on a present key keeps its place, so each is an association list:
  \<^verbatim>\<open>set\<close> is \<open>AList.update\<close>, \<^verbatim>\<open>delete\<close> is \<open>AList.delete\<close>, \<^verbatim>\<open>get\<close> is \<open>map_of\<close>.
\<close>

record store =
  pendingResults :: "(string \<times> pending_result) list"
  verifiedResults :: "(string \<times> verified_result) list"

definition empty_store :: store where
  "empty_store = \<lparr>pendingResults = [], verifiedResults = []\<rparr>"

record http_response =
  http_status :: nat
  http_body :: jobject

definition cleanupExpiredResults :: "int \<Rightarrow> store \<Rightarrow> store" where
  "cleanupExpiredResults now s =
     (let fiveMinutesAgo = now - 5 * 60 * 1000 in
      \<lparr>pendingResults =
         filter (\<lambda>(resultId, result). \<not> createdAt result < fiveMinutesAgo) (pendingResults s),
       verifiedResults =
         filter (\<lambda>(resultId, result). \<not> verifiedAt result < fiveMinutesAgo) (verifiedResults s)\<rparr>)"

text \<open>
  \<^verbatim>\<open>POST\<close>: the body and the clock reading are the inputs. Destructuring a \<^verbatim>\<open>null\<close>
  body throws, and so does a session id that cannot be written into the result id; both
  end in the handler's \<^verbatim>\<open>catch\<close> before the store is touched. The handler's clock
  reads are one instant.
\<close>

definition submitted_response :: "string \<Rightarrow> http_response" where
  "submitted_response resultId =
     \<lparr>http_status = 200,
      http_body =
        [(''success'', JBool True),
         (''resultId'', JStr resultId),
         (''status'', JStr ''pending_voice_verification''),
         (''complete_scan'', JBool False),
         (''message'', JStr ''Scan completed. Awaiting voice verification.'')]\<rparr>"

definition error_response :: "nat \<Rightarrow> string \<Rightarrow> http_response" where
  "error_response st msg = \<lparr>http_status = st, http_body = [(''error'', JStr msg)]\<rparr>"

definition POST :: "json \<Rightarrow> int \<Rightarrow> store \<Rightarrow> store \<times> http_response" where
  "POST reqBody now s =
     (if reqBody = JNull then (s, error_response 500 ''Failed to store scan results'')
      else if \<not> truthy_opt (jget reqBody ''sessionId'') \<or> \<not> truthy_opt (jget reqBody ''scanData'')
      then (s, error_response 400 ''sessionId and scanData are required'')
      else
        (case (jget reqBody ''sessionId'', jget reqBody ''scanData'') of
           (Some sid, Some sd) \<Rightarrow>
             (case js_string sid of
                None \<Rightarrow> (s, error_response 500 ''Failed to store scan results'')
              | Some sidText \<Rightarrow>
                  let resultId = ''result_'' @ sidText @ ''_'' @ number_text now;
                      stored = s\<lparr>pendingResults :=
                        AList.update resultId
                          \<lparr>sessionId = sid,
                           merchantId = jget reqBody ''merchantId'',
                           scanData = sd,
                           voiceVerified = False,
                           createdAt = now\<rparr>
                          (pendingResults s)\<rparr>
                  in (cleanupExpiredResults now stored, submitted_response resultId))
         | _ \<Rightarrow> (s, error_response 400 ''sessionId and scanData are required'')))"

text \<open>
  \<^verbatim>\<open>PUT\<close>: the pending table is keyed by strings, so only a string result id can be
  found. The log lines convert the result id (not found) and the verification id (found)
  to text before anything is moved; a value that cannot be converted ends in the
  \<^verbatim>\<open>catch\<close>.
\<close>

definition verified_response :: http_response where
  "verified_response =
     \<lparr>http_status = 200,
      http_body =
        [(''success'', JBool True),
         (''message'', JStr ''Voice verification recorded. Data is now accessible.'')]\<rparr>"

definition PUT :: "json \<Rightarrow> int \<Rightarrow> store \<Rightarrow> store \<times> http_response" where
  "PUT reqBody now s =
     (if reqBody = JNull then (s, error_response 500 ''Failed to verify result'')
      else if \<not> truthy_opt (jget reqBody ''resultId'') \<or> \<not> truthy_opt (jget reqBody ''verificationId'')
      then (s, error_response 400 ''resultId and verificationId are required'')
      else
        (case (jget reqBody ''resultId'', jget reqBody ''verificationId'') of
           (Some (JStr resultId), Some vid) \<Rightarrow>
             (case map_of (pendingResults s) resultId of
                None \<Rightarrow> (s, error_response 404 ''Invalid or expired result ID'')
              | Some pendingResult \<Rightarrow>
                  (case js_string vid of
                     None \<Rightarrow> (s, error_response 500 ''Failed to verify result'')
                   | Some vidText \<Rightarrow>
                       (\<lparr>pendingResults = AList.delete resultId (pendingResults s),
                         verifiedResults =
                           AList.update resultId
                             \<lparr>sessionId = sessionId pendingResult,
                              merchantId = merchantId pendingResult,
                              scanData = scanData pendingResult,
                              voiceVerified = True,
                              createdAt = createdAt pendingResult,
                              verificationId = vid,
                              verifiedAt = now\<rparr>
                             (verifiedResults s)\<rparr>,
                        verified_response)))
         | (Some rid, Some vid) \<Rightarrow>
             (case js_string rid of
                None \<Rightarrow> (s, error_response 500 ''Failed to verify result'')
              | Some ridText \<Rightarrow> (s, error_response 404 ''Invalid or expired result ID''))
         | _ \<Rightarrow> (s, error_response 400 ''resultId and verificationId are required'')))"

text \<open>
  \<^verbatim>\<open>GET\<close>. The three answers that carry no scan data are fixed values; the release
  answer is the object literal of the handler, with \<^verbatim>\<open>...result.scanData\<close> spread last
  and the members whose value is \<^verbatim>\<open>undefined\<close> left out, as serialisation does.
\<close>

definition key_required_response :: http_response where
  "key_required_response = error_response 400 ''sessionId or resultId is required''"

definition not_found_response :: http_response where
  "not_found_response =
     \<lparr>http_status = 404,
      http_body =
        [(''error'', JStr ''No results found for this session''),
         (''complete_scan'', JBool False)]\<rparr>"

definition still_pending_response :: "string \<Rightarrow> http_response" where
  "still_pending_response msg =
     \<lparr>http_status = 200,
      http_body =
        [(''success'', JBool False),
         (''status'', JStr ''pending_voice_verification''),
         (''complete_scan'', JBool False),
         (''message'', JStr msg)]\<rparr>"

definition release_response :: "verified_result \<Rightarrow> http_response" where
  "release_response result =
     \<lparr>http_status = 200,
      http_body =
        spread (scanData result)
          ([(''success'', JBool True),
            (''status'', JStr ''verified''),
            (''complete_scan'', JBool True)]
           @ (case jget (scanData result) ''encrypted_data'' of
                None \<Rightarrow> []
              | Some enc \<Rightarrow> [(''encrypted_data'', enc)])
           @ [(''voice_verified'', JBool True),
              (''verificationId'', verificationId result),
              (''verifiedAt'', JNum (verifiedAt result))])\<rparr>"

definition answer :: "verified_result option \<Rightarrow> http_response" where
  "answer result =
     (case result of
        None \<Rightarrow> not_found_response
      | Some r \<Rightarrow>
          if \<not> voiceVerified r
          then still_pending_response ''Voice verification required before accessing scan data''
          else release_response r)"

definition GET :: "string option \<Rightarrow> string option \<Rightarrow> store \<Rightarrow> http_response" where
  "GET sessionIdParam resultIdParam s =
     (if \<not> truthy_str sessionIdParam \<and> \<not> truthy_str resultIdParam then key_required_response
      else
        (case resultIdParam of
           Some (c # cs) \<Rightarrow> answer (map_of (verifiedResults s) (c # cs))
         | _ \<Rightarrow>
           (case sessionIdParam of
              None \<Rightarrow> key_required_response
            | Some sid \<Rightarrow>
                (case find (\<lambda>(key, data). sessionId data = JStr sid) (verifiedResults s) of
                   Some (key, data) \<Rightarrow> answer (Some data)
                 | None \<Rightarrow>
                     if list_ex (\<lambda>(key, data). sessionId data = JStr sid) (pendingResults s)
                     then still_pending_response ''Voice verification not yet completed''
                     else answer None))))"

definition DELETE :: "string option \<Rightarrow> store \<Rightarrow> store \<times> http_response" where
  "DELETE resultIdParam s =
     (case resultIdParam of
        Some (c # cs) \<Rightarrow>
          (let resultId = c # cs;
               deletedFromPending = (resultId \<in> fst ` set (pendingResults s));
               deletedFromVerified = (resultId \<in> fst ` set (verifiedResults s));
               s' = \<lparr>pendingResults = AList.delete resultId (pendingResults s),
                     verifiedResults = AList.delete resultId (verifiedResults s)\<rparr>
           in if deletedFromPending \<or> deletedFromVerified
              then (s', \<lparr>http_status = 200,
                         http_body = [(''success'', JBool True),
                                      (''message'', JStr ''Result deleted successfully'')]\<rparr>)
              else (s', error_response 404 ''Result not found''))
      | _ \<Rightarrow> (s, error_response 400 ''resultId is required''))"

text \<open>
  What reaches the store: the four requests, and the minute timer that runs the sweep.
\<close>

datatype request =
    Submit json int
  | MarkVerified json int
  | Fetch "string option" "string option"
  | Discard "string option"
  | Sweep int

fun step :: "request \<Rightarrow> store \<Rightarrow> store" where
  "step (Submit reqBody now) s = fst (POST reqBody now s)"
| "step (MarkVerified reqBody now) s = fst (PUT reqBody now s)"
| "step (Fetch sid rid) s = s"
| "step (Discard rid) s = fst (DELETE rid s)"
| "step (Sweep now) s = cleanupExpiredResults now s"

fun run :: "request list \<Rightarrow> store \<Rightarrow> store" where
  "run [] s = s"
| "run (r # rs) s = run rs (step r s)"



text \<open>Reading a member of an answer, and the request bodies of the worked scenarios.\<close>

definition field :: "http_response \<Rightarrow> string \<Rightarrow> json option" where
  "field r k = map_of (http_body r) k"

definition scenario_submit :: json where
  "scenario_submit =
     JObj [(''sessionId'', JStr ''s1''), (''scanData'', JObj [(''score'', JNum 9)])]"

definition scenario_mark :: json where
  "scenario_mark = JObj [(''resultId'', JStr ''result_s1_1000''), (''verificationId'', JStr ''v1'')]"

definition scan_success_submit :: json where
  "scan_success_submit =
     JObj [(''sessionId'', JStr ''s1''),
           (''scanData'', JObj [(''status'', JStr ''success''), (''score'', JNum 9)])]"


section \<open>The capture loops (hooks/captureBackSide.js, hooks/captureFrontSide.js)\<close>

text \<open>
  What the loops read of a classification response. Each member may be absent
  (\<open>None\<close>); \<^verbatim>\<open>buffer_info?.back_frames_buffered\<close> is absent when \<^verbatim>\<open>buffer_info\<close> is.
\<close>

record api_response =
  status :: "string option"
  encrypted_data :: "string option"
  encrypted_card_data :: "string option"
  complete_scan :: "bool option"
  error :: "string option"
  fake_card :: "bool option"
  front_frames_buffered :: "int option"
  back_frames_buffered :: "int option"
  validation_failed :: "bool option"
  validation_reason :: "string option"
  message_state :: "string option"
  movement_state :: "string option"
  message :: "string option"
  movement_message :: "string option"
  magstrip :: "bool option"
  signstrip :: "bool option"
  hologram :: "bool option"
  chip :: "bool option"
  bank_logo :: "bool option"

definition no_response :: api_response where
  "no_response =
     \<lparr>status = None, encrypted_data = None, encrypted_card_data = None, complete_scan = None,
      error = None, fake_card = None, front_frames_buffered = None,
      back_frames_buffered = None, validation_failed = None, validation_reason = None,
      message_state = None, movement_state = None, message = None, movement_message = None,
      magstrip = None, signstrip = None, hologram = None, chip = None, bank_logo = None\<rparr>"

definition truthy_text :: "string option \<Rightarrow> bool" where
  "truthy_text v = (case v of None \<Rightarrow> False | Some t \<Rightarrow> t \<noteq> [])"

text \<open>\<^verbatim>\<open>n >= 4\<close> on a count that may be absent: \<^verbatim>\<open>undefined >= 4\<close> is false.\<close>

definition at_least :: "int option \<Rightarrow> int \<Rightarrow> bool" where
  "at_least v k = (case v of None \<Rightarrow> False | Some n \<Rightarrow> k \<le> n)"

datatype phase = Front | Back | Validation | OtherPhase

datatype settled = Resolved api_response | Rejected string

text \<open>
  The variables the promise executor closes over, the promise itself (settled at most
  once), the number of classification requests awaiting their reply, the last phase and
  error message handed to the page, and the messages handed to the page's
  \<^verbatim>\<open>handleDetectionFailure\<close>. The processing indicator, the front-side progress
  display and the release of the camera tracks in the front-side cleanup are not tracked.
\<close>

record capture_state =
  frameNumber :: nat
  timeoutId :: bool
  isComplete :: bool
  hasReceivedSuccess :: bool
  maxFramesReachedTime :: "int option"
  lastApiResponse :: "api_response option"
  successfulFramesCount :: nat
  captureIntervalRef :: bool
  inFlight :: nat
  promise :: "settled option"
  uiPhase :: "string option"
  uiError :: "string option"
  failureCalls :: "string list"

definition initial_capture :: capture_state where
  "initial_capture =
     \<lparr>frameNumber = 0, timeoutId = False, isComplete = False, hasReceivedSuccess = False,
      maxFramesReachedTime = None, lastApiResponse = None, successfulFramesCount = 0,
      captureIntervalRef = False, inFlight = 0, promise = None,
      uiPhase = None, uiError = None, failureCalls = []\<rparr>"

definition maxFrames :: nat where
  "maxFrames = 8"

definition requiredBackSideFeatures :: nat where
  "requiredBackSideFeatures = 2"

definition cleanup :: "capture_state \<Rightarrow> capture_state" where
  "cleanup s = s\<lparr>captureIntervalRef := False, timeoutId := False\<rparr>"

definition resolve :: "api_response \<Rightarrow> capture_state \<Rightarrow> capture_state" where
  "resolve r s = (if promise s = None then s\<lparr>promise := Some (Resolved r)\<rparr> else s)"

definition reject :: "string \<Rightarrow> capture_state \<Rightarrow> capture_state" where
  "reject msg s = (if promise s = None then s\<lparr>promise := Some (Rejected msg)\<rparr> else s)"

definition countBackSideFeatures :: "api_response \<Rightarrow> nat" where
  "countBackSideFeatures apiResponse =
     length (filter (\<lambda>flag. flag = Some True)
       [magstrip apiResponse, signstrip apiResponse, hologram apiResponse])"

definition terminal_status :: "api_response \<Rightarrow> bool" where
  "terminal_status apiResponse =
     (status apiResponse = Some ''success'' \<or> status apiResponse = Some ''already_completed'')"

definition legacy_final :: "api_response \<Rightarrow> bool" where
  "legacy_final apiResponse =
     (truthy_text (encrypted_card_data apiResponse) \<and> truthy_text (status apiResponse))"

definition truthy_time :: "int option \<Rightarrow> bool" where
  "truthy_time t = (case t of None \<Rightarrow> False | Some n \<Rightarrow> n \<noteq> 0)"

definition validation_message :: "api_response \<Rightarrow> string" where
  "validation_message apiResponse =
     (case message apiResponse of
        Some (c # cs) \<Rightarrow> c # cs
      | _ \<Rightarrow>
          (case movement_message apiResponse of
             Some (c # cs) \<Rightarrow> c # cs
           | _ \<Rightarrow> ''Validation failed. Please try again.''))"

definition restart_message :: string where
  "restart_message = ''Oops, after numerous security scan detection your card issuer verification details do not match the bank records - please try again. Thank you!!.''"

text \<open>The copy handed on at a terminal status: the response without its two secrets.\<close>

definition sanitize :: "api_response \<Rightarrow> api_response" where
  "sanitize apiResponse = apiResponse\<lparr>encrypted_data := None, encrypted_card_data := None\<rparr>"

text \<open>
  What happens to the loop: the interval timer calls \<^verbatim>\<open>processFrame\<close> (with the stop
  flag, whether the video and canvas elements are still there, and the clock, as it finds
  them), a classification request is answered or fails, the 30 second timer fires.
\<close>

datatype event =
    Tick bool bool int
  | Reply api_response int
  | ReplyFailed
  | TimeoutFired

subsection \<open>Back side\<close>

text \<open>\<^verbatim>\<open>processFrame\<close> up to its \<^verbatim>\<open>await sendFrameToAPI\<close>.\<close>

definition back_processFrame ::
  "bool \<Rightarrow> bool \<Rightarrow> bool \<Rightarrow> int \<Rightarrow> capture_state \<Rightarrow> capture_state" where
  "back_processFrame frameOk stopRequested refsPresent now s =
     (if hasReceivedSuccess s then cleanup s
      else if isComplete s \<or> stopRequested then s
      else if \<not> refsPresent then
        (let s1 = cleanup (s\<lparr>isComplete := True\<rparr>) in
         case lastApiResponse s1 of
           Some r \<Rightarrow> resolve r s1
         | None \<Rightarrow> reject ''Component cleanup detected during frame capture'' s1)
      else if \<not> frameOk then s
      else
        (let s1 = s\<lparr>frameNumber := frameNumber s + 1\<rparr> in
         if frameNumber s1 > maxFrames then
           (if \<not> truthy_time (maxFramesReachedTime s1)
            then s1\<lparr>maxFramesReachedTime := Some now, captureIntervalRef := False\<rparr>
            else s1)
         else s1\<lparr>inFlight := inFlight s1 + 1\<rparr>))"

text \<open>The fallback once the frame limit was passed more than three seconds ago.\<close>

definition back_maxFrames_fallback :: "phase \<Rightarrow> capture_state \<Rightarrow> capture_state" where
  "back_maxFrames_fallback ph s =
     (let s1 = cleanup s in
      case lastApiResponse s1 of
        None \<Rightarrow> reject ''Maximum frames reached without sufficient data'' s1
      | Some l \<Rightarrow>
          if legacy_final l \<or> terminal_status l then resolve l s1
          else if ph = Back then
            (if at_least (Some (case back_frames_buffered l of None \<Rightarrow> 0 | Some n \<Rightarrow> n)) 4
                \<and> countBackSideFeatures l \<ge> requiredBackSideFeatures
             then resolve l s1
             else reject ''Insufficient back side features detected'' s1)
          else resolve l s1)"

text \<open>
  \<^verbatim>\<open>processFrame\<close> from the reply of \<^verbatim>\<open>sendFrameToAPI\<close> on: the terminal checks,
  the bookkeeping of a good response, then the adjudication of the response.
\<close>

definition record_response :: "api_response \<Rightarrow> capture_state \<Rightarrow> capture_state" where
  "record_response apiResponse s =
     (if \<not> truthy_text (error apiResponse)
         \<and> status apiResponse \<noteq> Some ''wait_for_front''
         \<and> status apiResponse \<noteq> Some ''wait_for_back''
      then s\<lparr>successfulFramesCount := successfulFramesCount s + 1,
             lastApiResponse := Some apiResponse\<rparr>
      else s)"

definition fail_with :: "string \<Rightarrow> string \<Rightarrow> string \<Rightarrow> capture_state \<Rightarrow> capture_state" where
  "fail_with err shownError shownPhase s =
     reject err
       ((cleanup (s\<lparr>isComplete := True\<rparr>))\<lparr>uiError := Some shownError, uiPhase := Some shownPhase\<rparr>)"

definition back_adjudicate ::
  "phase \<Rightarrow> api_response \<Rightarrow> int \<Rightarrow> capture_state \<Rightarrow> capture_state" where
  "back_adjudicate ph apiResponse now s1 =
     (let bufferedFrames =
        (if ph = Front then front_frames_buffered apiResponse
         else back_frames_buffered apiResponse)
      in
      if ph = Front \<and> fake_card apiResponse = Some True then
        fail_with ''Unacceptable Card Detection''
          ''Unacceptable Card Detection. Please use an original physical card.''
          ''fake-card-error'' s1
      else if ph = Back \<and> validation_failed apiResponse = Some True
              \<and> validation_reason apiResponse = Some ''brand_mismatch''
      then
        fail_with ''Brand mismatch''
          ''Security validation failed: Card brand mismatch detected between front and back sides''
          ''error'' s1
      else if at_least bufferedFrames 4
              \<and> (message_state apiResponse = Some ''VALIDATION_FAILED''
                   \<or> movement_state apiResponse = Some ''VALIDATION_FAILED'')
      then fail_with ''Validation failed'' (validation_message apiResponse) ''error'' s1
      else if ph = Back \<and> at_least bufferedFrames 4
              \<and> countBackSideFeatures apiResponse \<ge> requiredBackSideFeatures
      then resolve apiResponse (cleanup (s1\<lparr>isComplete := True\<rparr>))
      else if \<not> (ph = Back \<and> at_least bufferedFrames 4) \<and> at_least bufferedFrames 4
      then resolve apiResponse (cleanup (s1\<lparr>isComplete := True\<rparr>))
      else if frameNumber s1 \<ge> maxFrames \<and> truthy_time (maxFramesReachedTime s1)
              \<and> now - (case maxFramesReachedTime s1 of None \<Rightarrow> 0 | Some t \<Rightarrow> t) > 3000
      then back_maxFrames_fallback ph s1
      else s1)"

definition back_onResponse ::
  "phase \<Rightarrow> api_response \<Rightarrow> int \<Rightarrow> capture_state \<Rightarrow> capture_state" where
  "back_onResponse ph apiResponse now s =
     (if terminal_status apiResponse then
        resolve (sanitize apiResponse)
          ((cleanup (s\<lparr>hasReceivedSuccess := True, isComplete := True\<rparr>))
             \<lparr>uiPhase := Some ''results''\<rparr>)
      else if legacy_final apiResponse then
        resolve apiResponse
          ((cleanup (s\<lparr>hasReceivedSuccess := True, isComplete := True\<rparr>))
             \<lparr>uiPhase := Some ''results''\<rparr>)
      else if hasReceivedSuccess s then s
      else if status apiResponse = Some ''wait_for_front'' \<or> status apiResponse = Some ''wait_for_back''
      then fail_with ''Session restart required'' restart_message ''error'' s
      else back_adjudicate ph apiResponse now (record_response apiResponse s))"

text \<open>The 30 second timer's callback.\<close>

definition back_onTimeout :: "phase \<Rightarrow> capture_state \<Rightarrow> capture_state" where
  "back_onTimeout ph s =
     (if isComplete s \<or> hasReceivedSuccess s then s
      else
        (let s1 = cleanup s in
         if successfulFramesCount s1 = 0
         then reject ''Timeout: No successful API responses received'' s1
         else
           (case lastApiResponse s1 of
              None \<Rightarrow> reject ''Timeout: No successful API responses received'' s1
            | Some l \<Rightarrow>
                if terminal_status l then resolve l s1
                else if legacy_final l then resolve l s1
                else
                  (let s2 =
                     (if ph = Back then
                        (if at_least (Some (case back_frames_buffered l of None \<Rightarrow> 0 | Some n \<Rightarrow> n)) 4
                            \<and> countBackSideFeatures l \<ge> requiredBackSideFeatures
                         then resolve l s1
                         else reject ''Insufficient back side features'' s1)
                      else s1)
                   in resolve l s2))))"

text \<open>
  One event. A tick comes from the interval, so only while it is armed; a reply needs a
  request awaiting it; the timer fires once, while armed.
\<close>

fun back_step :: "bool \<Rightarrow> phase \<Rightarrow> capture_state \<Rightarrow> event \<Rightarrow> capture_state" where
  "back_step frameOk ph s (Tick stopRequested refsPresent now) =
     (if captureIntervalRef s then back_processFrame frameOk stopRequested refsPresent now s
      else s)"
| "back_step frameOk ph s (Reply apiResponse now) =
     (if inFlight s = 0 then s
      else back_onResponse ph apiResponse now (s\<lparr>inFlight := inFlight s - 1\<rparr>))"
| "back_step frameOk ph s ReplyFailed =
     (if inFlight s = 0 then s else s\<lparr>inFlight := inFlight s - 1\<rparr>)"
| "back_step frameOk ph s TimeoutFired =
     (if timeoutId s then back_onTimeout ph (s\<lparr>timeoutId := False\<rparr>) else s)"

text \<open>
  The executor: one direct call of \<^verbatim>\<open>processFrame\<close>, then the interval and the timer
  are armed. The run is the events that follow.
\<close>

definition back_start :: "bool \<Rightarrow> bool \<Rightarrow> bool \<Rightarrow> int \<Rightarrow> capture_state" where
  "back_start frameOk stopRequested refsPresent now =
     (back_processFrame frameOk stopRequested refsPresent now initial_capture)
       \<lparr>captureIntervalRef := True, timeoutId := True\<rparr>"

definition back_run :: "bool \<Rightarrow> phase \<Rightarrow> capture_state \<Rightarrow> event list \<Rightarrow> capture_state" where
  "back_run frameOk ph s evs = foldl (back_step frameOk ph) s evs"

text \<open>The back side's success predicate.\<close>

definition back_requirements :: "api_response \<Rightarrow> bool" where
  "back_requirements r =
     (at_least (back_frames_buffered r) 4 \<and> countBackSideFeatures r \<ge> 2)"

subsection \<open>Front side\<close>

definition front_processFrame ::
  "bool \<Rightarrow> bool \<Rightarrow> bool \<Rightarrow> int \<Rightarrow> capture_state \<Rightarrow> capture_state" where
  "front_processFrame frameOk stopRequested refsPresent now s =
     (if hasReceivedSuccess s then cleanup s
      else if isComplete s \<or> stopRequested then s
      else if \<not> refsPresent then
        (let s1 = cleanup (s\<lparr>isComplete := True\<rparr>) in
         case lastApiResponse s1 of
           Some r \<Rightarrow> resolve r s1
         | None \<Rightarrow> reject ''Component cleanup detected during frame capture'' s1)
      else if \<not> frameOk then s
      else
        (let s1 = s\<lparr>frameNumber := frameNumber s + 1\<rparr> in
         if frameNumber s1 > maxFrames then
           (if \<not> truthy_time (maxFramesReachedTime s1)
            then s1\<lparr>maxFramesReachedTime := Some now, captureIntervalRef := False\<rparr>
            else s1)
         else s1\<lparr>inFlight := inFlight s1 + 1\<rparr>))"

definition front_requirements_or0 :: "api_response \<Rightarrow> bool" where
  "front_requirements_or0 l =
     (at_least (Some (case front_frames_buffered l of None \<Rightarrow> 0 | Some n \<Rightarrow> n)) 4
      \<and> chip l = Some True \<and> bank_logo l = Some True)"

definition front_maxFrames_fallback :: "phase \<Rightarrow> capture_state \<Rightarrow> capture_state" where
  "front_maxFrames_fallback ph s =
     (let s1 = cleanup s in
      case lastApiResponse s1 of
        None \<Rightarrow> reject ''Maximum frames reached without sufficient data'' s1
      | Some l \<Rightarrow>
          if ph = Back then
            (if at_least (Some (case back_frames_buffered l of None \<Rightarrow> 0 | Some n \<Rightarrow> n)) 4
                \<and> countBackSideFeatures l \<ge> 2
             then resolve l s1
             else reject ''Insufficient back side features detected'' s1)
          else if ph = Front then
            (if front_requirements_or0 l then resolve l s1
             else reject ''Front side requirements not met: chip and bank_logo must be detected'' s1)
          else reject ''Maximum frames reached without sufficient data'' s1)"

text \<open>
  At a terminal status the front loop marks itself complete, cleans up and shows the
  results phase, but the value it means to resolve with reads \<^verbatim>\<open>capturedImageDataUrl\<close>,
  a name this file does not declare: evaluating it throws inside the \<^verbatim>\<open>try\<close>, the
  \<^verbatim>\<open>catch\<close> only logs, and the promise is left as it was.
\<close>

definition front_adjudicate ::
  "phase \<Rightarrow> api_response \<Rightarrow> int \<Rightarrow> capture_state \<Rightarrow> capture_state" where
  "front_adjudicate ph apiResponse now s1 =
     (let bufferedFrames =
        (if ph = Front then front_frames_buffered apiResponse
         else back_frames_buffered apiResponse)
      in
      if ph = Front \<and> fake_card apiResponse = Some True then
        fail_with ''Unacceptable Card Detection''
          ''Unacceptable Card Detection. Please use an original physical card.''
          ''fake-card-error'' s1
      else if ph = Back \<and> validation_failed apiResponse = Some True
              \<and> validation_reason apiResponse = Some ''brand_mismatch''
      then
        fail_with ''Brand mismatch''
          ''Security validation failed: Card brand mismatch detected between front and back sides''
          ''error'' s1
      else if at_least bufferedFrames 4
              \<and> (message_state apiResponse = Some ''VALIDATION_FAILED''
                   \<or> movement_state apiResponse = Some ''VALIDATION_FAILED'')
      then fail_with ''Validation failed'' (validation_message apiResponse) ''error'' s1
      else if ph = Front \<and> at_least bufferedFrames 4
              \<and> chip apiResponse = Some True \<and> bank_logo apiResponse = Some True
      then resolve apiResponse (cleanup (s1\<lparr>hasReceivedSuccess := True, isComplete := True\<rparr>))
      else if ph = Back \<and> at_least bufferedFrames 4 \<and> countBackSideFeatures apiResponse \<ge> 2
      then resolve apiResponse (cleanup (s1\<lparr>isComplete := True\<rparr>))
      else if frameNumber s1 \<ge> maxFrames \<and> truthy_time (maxFramesReachedTime s1)
              \<and> now - (case maxFramesReachedTime s1 of None \<Rightarrow> 0 | Some t \<Rightarrow> t) > 3000
      then front_maxFrames_fallback ph s1
      else s1)"

definition front_onResponse ::
  "phase \<Rightarrow> api_response \<Rightarrow> int \<Rightarrow> capture_state \<Rightarrow> capture_state" where
  "front_onResponse ph apiResponse now s =
     (if terminal_status apiResponse then
        (cleanup (s\<lparr>hasReceivedSuccess := True, isComplete := True\<rparr>))
          \<lparr>uiPhase := Some ''results''\<rparr>
      else if legacy_final apiResponse then
        resolve apiResponse
          ((cleanup (s\<lparr>hasReceivedSuccess := True, isComplete := True\<rparr>))
             \<lparr>uiPhase := Some ''results''\<rparr>)
      else if hasReceivedSuccess s then s
      else if ph \<noteq> Front \<and> ph \<noteq> Back
              \<and> (message_state apiResponse = Some ''VALIDATION_FAILED''
                   \<or> movement_state apiResponse = Some ''VALIDATION_FAILED'')
      then
        (if ph = Validation
         then
           reject ''Validation failed''
             ((cleanup (s\<lparr>isComplete := True\<rparr>))
                \<lparr>failureCalls := failureCalls s @ [validation_message apiResponse]\<rparr>)
         else fail_with ''Validation failed'' (validation_message apiResponse) ''error'' s)
      else if status apiResponse = Some ''wait_for_front''
      then fail_with ''Session restart required'' restart_message ''error'' s
      else front_adjudicate ph apiResponse now (record_response apiResponse s))"

definition front_onTimeout :: "phase \<Rightarrow> capture_state \<Rightarrow> capture_state" where
  "front_onTimeout ph s =
     (if isComplete s \<or> hasReceivedSuccess s then s
      else
        (let s1 = cleanup s in
         if successfulFramesCount s1 = 0
         then reject ''Timeout: Network Error No successful API responses received'' s1
         else
           (case lastApiResponse s1 of
              None \<Rightarrow> reject ''Timeout: Network Error or No successful API responses received'' s1
            | Some l \<Rightarrow>
                if legacy_final l \<or> terminal_status l
                then resolve l (s1\<lparr>uiPhase := Some ''results''\<rparr>)
                else if ph = Back then
                  (if at_least (Some (case back_frames_buffered l of None \<Rightarrow> 0 | Some n \<Rightarrow> n)) 4
                      \<and> countBackSideFeatures l \<ge> 3
                   then resolve l s1
                   else reject ''Insufficient back side features'' s1)
                else if ph = Front then
                  (if front_requirements_or0 l then resolve l s1
                   else reject ''Front side requirements not met: chip and bank_logo must both be detected'' s1)
                else reject ''Timeout: requirements not met'' s1)))"

fun front_step :: "bool \<Rightarrow> phase \<Rightarrow> capture_state \<Rightarrow> event \<Rightarrow> capture_state" where
  "front_step frameOk ph s (Tick stopRequested refsPresent now) =
     (if captureIntervalRef s then front_processFrame frameOk stopRequested refsPresent now s
      else s)"
| "front_step frameOk ph s (Reply apiResponse now) =
     (if inFlight s = 0 then s
      else front_onResponse ph apiResponse now (s\<lparr>inFlight := inFlight s - 1\<rparr>))"
| "front_step frameOk ph s ReplyFailed =
     (if inFlight s = 0 then s else s\<lparr>inFlight := inFlight s - 1\<rparr>)"
| "front_step frameOk ph s TimeoutFired =
     (if timeoutId s then front_onTimeout ph (s\<lparr>timeoutId := False\<rparr>) else s)"

definition front_start :: "bool \<Rightarrow> bool \<Rightarrow> bool \<Rightarrow> int \<Rightarrow> capture_state" where
  "front_start frameOk stopRequested refsPresent now =
     (front_processFrame frameOk stopRequested refsPresent now initial_capture)
       \<lparr>captureIntervalRef := True, timeoutId := True\<rparr>"

definition front_run :: "bool \<Rightarrow> phase \<Rightarrow> capture_state \<Rightarrow> event list \<Rightarrow> capture_state" where
  "front_run frameOk ph s evs = foldl (front_step frameOk ph) s evs"

definition front_requirements :: "api_response \<Rightarrow> bool" where
  "front_requirements r =
     (at_least (front_frames_buffered r) 4 \<and> chip r = Some True \<and> bank_logo r = Some True)"

text \<open>The responses of the worked runs.\<close>

definition one_feature_five_frames :: api_response where
  "one_feature_five_frames =
     no_response\<lparr>status := Some ''processing'', back_frames_buffered := Some 5,
                 magstrip := Some True\<rparr>"

definition legacy_one_feature :: api_response where
  "legacy_one_feature = one_feature_five_frames\<lparr>encrypted_card_data := Some ''card-secret''\<rparr>"

definition two_features_with_secret :: api_response where
  "two_features_with_secret =
     no_response\<lparr>status := Some ''processing'', back_frames_buffered := Some 4,
                 magstrip := Some True, signstrip := Some True,
                 encrypted_data := Some ''payload-secret''\<rparr>"

definition chip_without_logo :: api_response where
  "chip_without_logo =
     no_response\<lparr>status := Some ''processing'', front_frames_buffered := Some 5,
                 chip := Some True, bank_logo := Some False\<rparr>"

definition legacy_chip_without_logo :: api_response where
  "legacy_chip_without_logo = chip_without_logo\<lparr>encrypted_card_data := Some ''card-secret''\<rparr>"

text \<open>
  Two runs. The first: two replies, a tick in between, then the 30 second timer. The
  second: the eight frames are sent and the first seven answered, the ninth tick passes
  the frame limit at 6400 ms, and the eighth answer arrives at 9500 ms.
\<close>

definition timed_out_run :: "api_response \<Rightarrow> event list" where
  "timed_out_run r = [Reply r 100, Tick False True 800, Reply r 900, TimeoutFired]"

definition max_frames_run :: "api_response \<Rightarrow> event list" where
  "max_frames_run r =
     concat (map (\<lambda>k. [Reply r (800 * k - 700), Tick False True (800 * k)]) [1, 2, 3, 4, 5, 6, 7])
     @ [Tick False True 6400, Reply r 9500]"


section \<open>Before the loop: liveness frame, anti-spoof check, scan frame\<close>
















section \<open>Attempt counting (page.js)\<close>

definition MAX_ATTEMPTS :: nat where
  "MAX_ATTEMPTS = 5"

record failure_report =
  scan_id :: string
  report_session :: string
  report_reason :: string
  report_operation :: string
  report_merchant :: string

text \<open>
  The page state the failure handlers read and write, the merchant id's two sources, and
  what goes out: the reports handed to \<^verbatim>\<open>reportFailure\<close> and the calls of
  \<^verbatim>\<open>disableFlashlight\<close>. Each handler sees the state the one before it left. Timers and
  intervals, which the handlers only clear, are not part of the state.
\<close>

record page_state =
  attemptCount :: nat
  maxAttemptsReached :: bool
  currentOperation :: "string option"
  currentPhase :: string
  errorMessage :: string
  pageSessionId :: string
  detectionActive :: bool
  isProcessing :: bool
  countdown :: nat
  stopRequested :: bool
  fakeCardDetectedPhase :: "string option"
  authMerchantId :: "string option"
  webviewMerchantId :: "string option"
  reports :: "failure_report list"
  flashlightOffCalls :: nat

text \<open>\<^verbatim>\<open>authData?.merchantId || window.__WEBVIEW_AUTH__?.merchantId\<close>\<close>

definition merchant_of :: "page_state \<Rightarrow> string option" where
  "merchant_of s =
     (if truthy_text (authMerchantId s) then authMerchantId s else webviewMerchantId s)"

definition handleDetectionFailure :: "string \<Rightarrow> string option \<Rightarrow> page_state \<Rightarrow> page_state" where
  "handleDetectionFailure msg operation s =
     (let newAttemptCount = attemptCount s + 1;
          s1 = s\<lparr>stopRequested := True,
                 flashlightOffCalls := flashlightOffCalls s + 1,
                 detectionActive := False,
                 isProcessing := False,
                 countdown := 0,
                 attemptCount := newAttemptCount,
                 currentOperation := operation\<rparr>
      in
      if newAttemptCount \<ge> MAX_ATTEMPTS then
        (let s2 = s1\<lparr>maxAttemptsReached := True,
                      errorMessage := ''Maximum attempts reached. Please contact support for assistance.'',
                      currentPhase := ''max-attempts-reached''\<rparr>;
             merchant = merchant_of s
         in
         case merchant of
           Some (c # cs) \<Rightarrow>
             if pageSessionId s \<noteq> [] then
               s2\<lparr>reports := reports s @
                   [\<lparr>scan_id = [],
                     report_session = pageSessionId s,
                     report_reason =
                       (if msg \<noteq> [] then ''MAX RETRY REACHED: '' @ msg
                        else ''MAX RETRY REACHED: Failed after 5 attempts''),
                     report_operation =
                       (case operation of Some (d # ds) \<Rightarrow> d # ds | _ \<Rightarrow> ''unknown''),
                     report_merchant = c # cs\<rparr>]\<rparr>
             else s2
         | _ \<Rightarrow> s2)
      else
        s1\<lparr>errorMessage :=
              msg @ '' (Attempt '' @ number_text (int newAttemptCount) @ ''/''
                  @ number_text (int MAX_ATTEMPTS) @ '')'',
            currentPhase := ''error''\<rparr>)"

text \<open>
  A run that throws the fake-card error does not reach \<^verbatim>\<open>handleDetectionFailure\<close>: the
  \<^verbatim>\<open>catch\<close> of each of the three start functions (\<^verbatim>\<open>startCardScanning\<close>,
  \<^verbatim>\<open>startFrontSideDetection\<close>, \<^verbatim>\<open>startBackSideDetection\<close>) clears the active flag and,
  unless a stop was requested, tests the message for "Unacceptable Card Detection" first,
  shows the fake-card screen, notes the side and returns. The attempt count is not touched
  here. This is the branch taken.
\<close>

definition fake_card_caught :: "string \<Rightarrow> page_state \<Rightarrow> page_state" where
  "fake_card_caught side s =
     s\<lparr>detectionActive := False,
       errorMessage := ''Sorry, we do not accept screen detection cards - make sure you physically have the bank card for security scanning.'',
       currentPhase := ''fake-card-error'',
       fakeCardDetectedPhase := Some side\<rparr>"

text \<open>
  The retry button of the fake-card screen. It counts the attempt; at the ceiling it ends
  the session and sends no report.
\<close>

definition handleFakeCardRetry :: "page_state \<Rightarrow> page_state" where
  "handleFakeCardRetry s =
     (let newAttemptCount = attemptCount s + 1;
          s1 = s\<lparr>attemptCount := newAttemptCount\<rparr>
      in
      if newAttemptCount \<ge> MAX_ATTEMPTS then
        s1\<lparr>maxAttemptsReached := True,
           errorMessage := ''Maximum attempts reached. Please contact support for assistance.'',
           currentPhase := ''max-attempts-reached'',
           fakeCardDetectedPhase := None\<rparr>
      else
        (let s2 = s1\<lparr>errorMessage := [], stopRequested := False\<rparr> in
         if fakeCardDetectedPhase s = Some ''front''
         then s2\<lparr>currentPhase := ''idle'', fakeCardDetectedPhase := None\<rparr>
         else if fakeCardDetectedPhase s = Some ''back''
         then s2\<lparr>currentPhase := ''ready-for-back'', fakeCardDetectedPhase := None\<rparr>
         else s2\<lparr>currentPhase := ''idle'', fakeCardDetectedPhase := None\<rparr>))"

text \<open>
  What happens to the count in a session. A scan run is begun by one of the three start
  functions, and each of them returns at once when \<^verbatim>\<open>maxAttemptsReached\<close> is set
  (\<^verbatim>\<open>if (maxAttemptsReached || detectionActive) return;\<close>, and
  \<^verbatim>\<open>if (maxAttemptsReached) return;\<close> for the back side). Every call of
  \<^verbatim>\<open>handleDetectionFailure\<close> (the \<^verbatim>\<open>catch\<close> blocks, the detection timeout, the validation
  failure inside the capture functions, the back result that misses the criteria) and
  every fake-card \<^verbatim>\<open>catch\<close> belongs to such a run. So the two run events below happen only
  while the flag is not set; message and operation of a failure are arbitrary. The retry
  handler has no test of its own.
\<close>

datatype page_event =
    DetectionFailed string "string option"
  | FakeCardDetected string
  | FakeCardRetry

fun page_step :: "page_event \<Rightarrow> page_state \<Rightarrow> page_state" where
  "page_step (DetectionFailed msg operation) s =
     (if maxAttemptsReached s then s else handleDetectionFailure msg operation s)"
| "page_step (FakeCardDetected side) s =
     (if maxAttemptsReached s then s else fake_card_caught side s)"
| "page_step FakeCardRetry s = handleFakeCardRetry s"

fun session :: "page_event list \<Rightarrow> page_state \<Rightarrow> page_state" where
  "session [] s = s"
| "session (ev # evs) s = session evs (page_step ev s)"

text \<open>The events that count as an attempt: a detection failure and a fake-card retry.\<close>

fun counted :: "page_event \<Rightarrow> bool" where
  "counted (DetectionFailed msg operation) = True"
| "counted (FakeCardDetected side) = False"
| "counted FakeCardRetry = True"

definition attempts :: "page_event list \<Rightarrow> nat" where
  "attempts evs = length (filter counted evs)"

definition fresh_session :: "string \<Rightarrow> string option \<Rightarrow> page_state" where
  "fresh_session sid merchant =
     \<lparr>attemptCount = 0, maxAttemptsReached = False, currentOperation = None,
      currentPhase = ''idle'', errorMessage = [], pageSessionId = sid,
      detectionActive = False, isProcessing = False, countdown = 0, stopRequested = False,
      fakeCardDetectedPhase = None,
      authMerchantId = merchant, webviewMerchantId = None, reports = [],
      flashlightOffCalls = 0\<rparr>"


definition back_failure :: page_event where
  "back_failure = DetectionFailed ''Back scan incomplete or failed.'' (Some ''back'')"

definition five_back_failures :: "page_event list" where
  "five_back_failures = replicate 5 back_failure"




section \<open>Camera selection (utils/CameraUtils.js)\<close>

definition TEST_MODE :: bool where
  "TEST_MODE = True"

text \<open>
  Labels and device ids are byte strings (UTF-8). \<^verbatim>\<open>toLowerCase\<close> is taken on the ASCII
  letters; \<^verbatim>\<open>includes\<close> is \<open>sublist\<close>.
\<close>

definition toLowerCase :: "string \<Rightarrow> string" where
  "toLowerCase s =
     map (\<lambda>c. case map_of (zip ''ABCDEFGHIJKLMNOPQRSTUVWXYZ'' ''abcdefghijklmnopqrstuvwxyz'') c of
                 Some l \<Rightarrow> l | None \<Rightarrow> c) s"

definition js_includes :: "string \<Rightarrow> string \<Rightarrow> bool" where
  "js_includes s part = sublist part s"

record device =
  deviceId :: string
  label :: string

datatype facing = FacingFront | FacingBack | FacingUnknown

record camera = device +
  facing :: facing

datatype scan_side = ScanFront | ScanBack | ScanOther

definition scoreCameraForScanning :: "string \<Rightarrow> int" where
  "scoreCameraForScanning deviceLabel =
     (let l = toLowerCase deviceLabel in
        (if js_includes l ''dual wide'' \<or> js_includes l ''wide camera'' then 100 else 0)
      + (if js_includes l ''main'' then 90 else 0)
      + (if js_includes l ''wide'' \<and> \<not> js_includes l ''ultra'' then 80 else 0)
      + (if js_includes l ''back camera'' \<and> \<not> js_includes l ''ultra'' \<and> \<not> js_includes l ''telephoto''
         then 70 else 0)
      + (if js_includes l ''dual camera'' then 60 else 0)
      + (if js_includes l ''triple camera'' then 50 else 0)
      - (if js_includes l ''ultra'' then 50 else 0)
      - (if js_includes l ''telephoto'' \<or> js_includes l ''tele'' \<or> js_includes l ''zoom'' then 100 else 0))"

definition backIndicators :: "string list" where
  "backIndicators =
     [''back'', ''rear'', ''environment'', ''main'', ''wide'', ''ultra'', ''telephoto'', ''macro'',
      [CHR 0xED, CHR 0x9B, CHR 0x84, CHR 0xEB, CHR 0xA9, CHR 0xB4],
      [CHR 0xEB, CHR 0x92, CHR 0xA4]]"

definition frontIndicators :: "string list" where
  "frontIndicators =
     [''front'', ''selfie'', ''user'', ''facetime'',
      [CHR 0xEC, CHR 0xA0, CHR 0x84, CHR 0xEB, CHR 0xA9, CHR 0xB4],
      [CHR 0xEC, CHR 0x95, CHR 0x9E]]"

definition classifyCameraFacing :: "string \<Rightarrow> facing" where
  "classifyCameraFacing deviceLabel =
     (let l = toLowerCase deviceLabel in
      if list_ex (js_includes l) backIndicators then FacingBack
      else if list_ex (js_includes l) frontIndicators then FacingFront
      else if js_includes l ''camera 0'' \<or> js_includes l ''camera2 0'' then FacingBack
      else if js_includes l ''camera 1'' \<or> js_includes l ''camera2 1'' then FacingFront
      else FacingUnknown)"

definition classify :: "device \<Rightarrow> camera" where
  "classify d = \<lparr>deviceId = deviceId d, label = label d, facing = classifyCameraFacing (label d)\<rparr>"

definition isTelephoto :: "string \<Rightarrow> bool" where
  "isTelephoto deviceLabel =
     (let l = toLowerCase deviceLabel in
      js_includes l ''telephoto'' \<or> js_includes l ''tele'' \<or> js_includes l ''zoom'')"

definition isUltraWide :: "string \<Rightarrow> bool" where
  "isUltraWide deviceLabel = js_includes (toLowerCase deviceLabel) ''ultra''"

text \<open>The cameras that face the scanned side, with the two fallbacks.\<close>

definition targetCameras :: "scan_side \<Rightarrow> device list \<Rightarrow> camera list" where
  "targetCameras scanSide devices =
     (let classifiedCameras = map classify devices;
          targetFacing = (if scanSide = ScanFront then FacingFront else FacingBack);
          t0 = filter (\<lambda>cam. facing cam = targetFacing) classifiedCameras;
          t1 = (if t0 = [] \<and> scanSide = ScanBack
                then filter (\<lambda>cam. facing cam \<noteq> FacingFront) classifiedCameras else t0)
      in if t1 = [] then classifiedCameras else t1)"

text \<open>
  For a back scan with more than one target camera: drop telephoto and ultra-wide
  labels, then sort by score, highest first. The comparator is \<^verbatim>\<open>b.score - a.score\<close>
  and the sort is stable, which is \<open>sort_key\<close> on the negated score.
\<close>

definition candidates :: "scan_side \<Rightarrow> device list \<Rightarrow> camera list" where
  "candidates scanSide devices =
     (let t = targetCameras scanSide devices in
      if scanSide = ScanBack \<and> length t > 1
      then sort_key (\<lambda>cam. - scoreCameraForScanning (label cam))
             (filter (\<lambda>cam. \<not> isTelephoto (label cam) \<and> \<not> isUltraWide (label cam)) t)
      else t)"

text \<open>
  The torch probe opens the camera and tries the torch; the negotiation sees only what
  it reports for a device id.
\<close>

record torch_result =
  supported :: bool
  trackLabel :: "string option"

record selection =
  sel_deviceId :: "string option"
  hasTorch :: bool
  sel_facing :: facing
  sel_label :: string
  sel_error :: "string option"
  testMode :: bool

definition label_or :: "string \<Rightarrow> string \<Rightarrow> string" where
  "label_or l fallback = (if l \<noteq> [] then l else fallback)"

fun torch_loop :: "(string \<Rightarrow> torch_result) \<Rightarrow> camera list \<Rightarrow> selection option" where
  "torch_loop probe [] = None"
| "torch_loop probe (cam # cams) =
     (if deviceId cam = [] then torch_loop probe cams
      else if supported (probe (deviceId cam)) then
        Some \<lparr>sel_deviceId = Some (deviceId cam),
              hasTorch = True,
              sel_facing = facing cam,
              sel_label =
                label_or (label cam)
                  (case trackLabel (probe (deviceId cam)) of
                     Some (c # cs) \<Rightarrow> c # cs | _ \<Rightarrow> ''Unknown''),
              sel_error = None,
              testMode = False\<rparr>
      else torch_loop probe cams)"

definition findBestCameraForScan_with ::
  "bool \<Rightarrow> (string \<Rightarrow> torch_result) \<Rightarrow> scan_side \<Rightarrow> device list \<Rightarrow> selection" where
  "findBestCameraForScan_with test_mode probe scanSide devices =
     (if devices = [] then
        \<lparr>sel_deviceId = None, hasTorch = False, sel_facing = FacingUnknown,
         sel_label = ''default'', sel_error = None, testMode = False\<rparr>
      else
        (case candidates scanSide devices of
           [] \<Rightarrow>
             \<lparr>sel_deviceId = None, hasTorch = False, sel_facing = FacingUnknown,
              sel_label = ''No camera'', sel_error = Some ''NO_CAMERA'', testMode = False\<rparr>
         | testCamera # others \<Rightarrow>
             if scanSide = ScanBack then
               (case torch_loop probe (testCamera # others) of
                  Some selectedCamera \<Rightarrow> selectedCamera
                | None \<Rightarrow>
                    if test_mode then
                      \<lparr>sel_deviceId = (if deviceId testCamera = [] then None else Some (deviceId testCamera)),
                       hasTorch = False,
                       sel_facing = facing testCamera,
                       sel_label = label_or (label testCamera) ''Test Camera'',
                       sel_error = None,
                       testMode = True\<rparr>
                    else
                      \<lparr>sel_deviceId = None, hasTorch = False, sel_facing = FacingBack,
                       sel_label = ''No torch camera'', sel_error = Some ''NO_TORCH_CAMERA'',
                       testMode = False\<rparr>)
             else if scanSide = ScanFront then
               \<lparr>sel_deviceId = (if deviceId testCamera = [] then None else Some (deviceId testCamera)),
                hasTorch = False,
                sel_facing = facing testCamera,
                sel_label = label_or (label testCamera) ''Unknown'',
                sel_error = None,
                testMode = False\<rparr>
             else
               \<lparr>sel_deviceId = None, hasTorch = False, sel_facing = FacingUnknown,
                sel_label = ''No camera'', sel_error = Some ''NO_CAMERA'', testMode = False\<rparr>))"

definition findBestCameraForScan ::
  "(string \<Rightarrow> torch_result) \<Rightarrow> scan_side \<Rightarrow> device list \<Rightarrow> selection" where
  "findBestCameraForScan = findBestCameraForScan_with TEST_MODE"

text \<open>A candidate the probe verifies, and the devices and probes of the worked examples.\<close>

definition verifies :: "(string \<Rightarrow> torch_result) \<Rightarrow> camera \<Rightarrow> bool" where
  "verifies probe cam = (deviceId cam \<noteq> [] \<and> supported (probe (deviceId cam)))"

definition probe_all :: "string \<Rightarrow> torch_result" where
  "probe_all d = \<lparr>supported = True, trackLabel = None\<rparr>"

definition probe_none :: "string \<Rightarrow> torch_result" where
  "probe_none d = \<lparr>supported = False, trackLabel = None\<rparr>"

definition probe_only :: "string \<Rightarrow> string \<Rightarrow> torch_result" where
  "probe_only good d = \<lparr>supported = (d = good), trackLabel = None\<rparr>"

definition lone_telephoto :: "device list" where
  "lone_telephoto = [\<lparr>deviceId = ''d1'', label = ''Back Telephoto Camera''\<rparr>]"

definition two_excluded :: "device list" where
  "two_excluded =
     [\<lparr>deviceId = ''d1'', label = ''Back Telephoto Camera''\<rparr>,
      \<lparr>deviceId = ''d2'', label = ''Back Ultra Wide Camera''\<rparr>]"

definition three_back :: "device list" where
  "three_back =
     [\<lparr>deviceId = ''d1'', label = ''Back Camera''\<rparr>,
      \<lparr>deviceId = ''d2'', label = ''Back Main Wide Camera''\<rparr>,
      \<lparr>deviceId = ''d3'', label = ''Back Telephoto Camera''\<rparr>]"


section \<open>Predicates used in the statements and proofs\<close>

text \<open>
  The loop invariant of the two capture loops: the last recorded response, if any, is one
  of the replies (\<open>Q\<close>), and a promise resolved so far was resolved with a reply that
  meets the side's requirements (\<open>good\<close>).
\<close>

definition resolved_ok ::
  "(api_response \<Rightarrow> bool) \<Rightarrow> (api_response \<Rightarrow> bool) \<Rightarrow> capture_state \<Rightarrow> bool" where
  "resolved_ok good Q s =
     ((case lastApiResponse s of None \<Rightarrow> True | Some l \<Rightarrow> Q l)
      \<and> (case promise s of Some (Resolved r) \<Rightarrow> good r \<and> Q r | _ \<Rightarrow> True))"

text \<open>The responses a run received, and whether the elements stayed in place at every tick.\<close>

definition replies :: "event list \<Rightarrow> api_response list" where
  "replies evs = concat (map (\<lambda>e. case e of Reply r now \<Rightarrow> [r] | _ \<Rightarrow> []) evs)"

definition refs_stay :: "event list \<Rightarrow> bool" where
  "refs_stay evs = list_all (\<lambda>e. case e of Tick stop refs now \<Rightarrow> refs | _ \<Rightarrow> True) evs"

text \<open>
  Until the promise is settled the 30 second timer stays armed, and the loop is marked
  complete only when the promise is settled.
\<close>

definition is_settled :: "capture_state \<Rightarrow> bool" where
  "is_settled s = (promise s \<noteq> None)"

definition timer_kept :: "capture_state \<Rightarrow> bool" where
  "timer_kept s =
     ((timeoutId s \<or> is_settled s)
      \<and> (\<not> (isComplete s \<or> hasReceivedSuccess s) \<or> is_settled s))"




section \<open>Properties of the secure-results store\<close>

subsection \<open>Only marked entries reach the verified table\<close>









subsection \<open>What a fetch can answer\<close>






subsection \<open>The round trip in general\<close>

text \<open>
  The release response is an object literal that ends with a spread of the stored scan data, so
  a member of the scan data wins over the literal's member of the same name, and the literal's
  members survive exactly where the scan data has no member of that name. The lemmas below
  follow one payload through \<open>POST\<close>, \<open>PUT\<close> and \<open>GET\<close> for any store, any payload object and
  any clock.
\<close>

lemma map_of_fold_update:
  "map_of (fold (\<lambda>(k, x). AList.update k x) kvs al) k
     = (case map_of (rev kvs) k of Some v \<Rightarrow> Some v | None \<Rightarrow> map_of al k)"
proof (induction kvs arbitrary: al)
  case Nil
  then show ?case by simp
next
  case (Cons p kvs)
  obtain a b where p: "p = (a, b)" by (cases p)
  show ?case
    by (simp add: p Cons.IH update_conv' map_add_def split: option.splits)
qed

lemma field_spread_object:
  "map_of (spread (JObj kvs) base) k
     = (case jget (JObj kvs) k of Some v \<Rightarrow> Some v | None \<Rightarrow> map_of base k)"
  by (simp add: spread_def entries_def map_of_fold_update)

lemma release_fields:
  assumes "scanData e = JObj kvs"
  shows "\<And>k v. jget (scanData e) k = Some v \<Longrightarrow> field (release_response e) k = Some v"
    and "jget (scanData e) ''status'' = None \<Longrightarrow>
         field (release_response e) ''status'' = Some (JStr ''verified'')"
    and "jget (scanData e) ''complete_scan'' = None \<Longrightarrow>
         field (release_response e) ''complete_scan'' = Some (JBool True)"
    and "jget (scanData e) ''voice_verified'' = None \<Longrightarrow>
         field (release_response e) ''voice_verified'' = Some (JBool True)"
    and "jget (scanData e) ''verificationId'' = None \<Longrightarrow>
         field (release_response e) ''verificationId'' = Some (verificationId e)"
  using assms
  by (auto simp: field_def release_response_def field_spread_object split: option.splits)

lemma cleanup_keeps_fresh:
  assumes "map_of (pendingResults s) k = Some p" and "createdAt p = now"
  shows "map_of (pendingResults (cleanupExpiredResults now s)) k = Some p"
proof -
  have "map_of (filter (\<lambda>(resultId, result). \<not> createdAt result < now - 5 * 60 * 1000)
          (pendingResults s)) k = Some p"
    using assms by (intro map_of_filter_in) auto
  then show ?thesis by (simp add: cleanupExpiredResults_def Let_def)
qed

lemma POST_stores:
  assumes "jget reqBody ''sessionId'' = Some sid" and "truthy sid"
    and "js_string sid = Some t"
    and "jget reqBody ''scanData'' = Some sd" and "truthy sd"
  shows "snd (POST reqBody now s) = submitted_response (''result_'' @ t @ ''_'' @ number_text now)"
    and "\<exists>p. map_of (pendingResults (fst (POST reqBody now s)))
              (''result_'' @ t @ ''_'' @ number_text now) = Some p
          \<and> scanData p = sd \<and> sessionId p = sid"
proof -
  have n: "reqBody \<noteq> JNull" using assms(1) by auto
  show "snd (POST reqBody now s) = submitted_response (''result_'' @ t @ ''_'' @ number_text now)"
    using assms n by (simp add: POST_def truthy_opt_def Let_def)
  let ?rid = "''result_'' @ t @ ''_'' @ number_text now"
  let ?p = "\<lparr>sessionId = sid, merchantId = jget reqBody ''merchantId'', scanData = sd,
             voiceVerified = False, createdAt = now\<rparr>"
  let ?stored = "s\<lparr>pendingResults := AList.update ?rid ?p (pendingResults s)\<rparr>"
  have "map_of (pendingResults ?stored) ?rid = Some ?p" by (simp add: update_conv')
  then have "map_of (pendingResults (cleanupExpiredResults now ?stored)) ?rid = Some ?p"
    by (rule cleanup_keeps_fresh) simp
  moreover have "fst (POST reqBody now s) = cleanupExpiredResults now ?stored"
    using assms n by (simp add: POST_def truthy_opt_def Let_def)
  ultimately show "\<exists>p. map_of (pendingResults (fst (POST reqBody now s))) ?rid = Some p
          \<and> scanData p = sd \<and> sessionId p = sid"
    by simp
qed

lemma PUT_moves:
  assumes "map_of (pendingResults s) rid = Some p" and "rid \<noteq> []"
    and "truthy vid" and "js_string vid \<noteq> None"
  shows "snd (PUT (JObj [(''resultId'', JStr rid), (''verificationId'', vid)]) now s)
           = verified_response"
    and "\<exists>e. map_of (verifiedResults
                 (fst (PUT (JObj [(''resultId'', JStr rid), (''verificationId'', vid)]) now s))) rid
              = Some e
          \<and> scanData e = scanData p \<and> voiceVerified e \<and> verificationId e = vid
          \<and> verifiedAt e = now"
  using assms
  by (auto simp: PUT_def truthy_opt_def update_conv' split: option.splits)

lemma GET_by_result_id:
  assumes "map_of (verifiedResults s) rid = Some e" and "rid \<noteq> []" and "voiceVerified e"
  shows "GET sidParam (Some rid) s = release_response e"
proof -
  obtain c cs where r: "rid = c # cs" using assms(2) by (cases rid) auto
  show ?thesis using assms r by (simp add: GET_def truthy_str_def answer_def)
qed

lemma round_trip_unreserved:
  assumes "jget reqBody ''sessionId'' = Some sid" and "truthy sid" and "js_string sid = Some t"
    and "jget reqBody ''scanData'' = Some (JObj kvs)"
    and "truthy vid" and "js_string vid \<noteq> None"
    and "rid = ''result_'' @ t @ ''_'' @ number_text now"
    and "s1 = fst (POST reqBody now s)"
    and "s2 = fst (PUT (JObj [(''resultId'', JStr rid), (''verificationId'', vid)]) later s1)"
  shows "field (snd (POST reqBody now s)) ''resultId'' = Some (JStr rid)"
    and "http_status (snd (PUT (JObj [(''resultId'', JStr rid), (''verificationId'', vid)]) later s1)) = 200"
    and "http_status (GET None (Some rid) s2) = 200"
    and "\<And>k v. map_of (rev kvs) k = Some v \<Longrightarrow> field (GET None (Some rid) s2) k = Some v"
    and "map_of (rev kvs) ''status'' = None \<Longrightarrow>
         field (GET None (Some rid) s2) ''status'' = Some (JStr ''verified'')"
    and "map_of (rev kvs) ''complete_scan'' = None \<Longrightarrow>
         field (GET None (Some rid) s2) ''complete_scan'' = Some (JBool True)"
    and "map_of (rev kvs) ''voice_verified'' = None \<Longrightarrow>
         field (GET None (Some rid) s2) ''voice_verified'' = Some (JBool True)"
    and "map_of (rev kvs) ''verificationId'' = None \<Longrightarrow>
         field (GET None (Some rid) s2) ''verificationId'' = Some vid"
proof -
  have tr: "truthy (JObj kvs)" by simp
  note post = POST_stores [OF assms(1,2,3,4) tr, of now s]
  from post(2) obtain p where
    p: "map_of (pendingResults s1) rid = Some p" "scanData p = JObj kvs"
    using assms(7,8) by auto
  have ne: "rid \<noteq> []" using assms(7) by simp
  note put = PUT_moves [OF p(1) ne assms(5,6), of later]
  from put(2) obtain e where
    e: "map_of (verifiedResults s2) rid = Some e" "scanData e = JObj kvs" "voiceVerified e"
       "verificationId e = vid"
    using assms(9) p(2) by auto
  have g: "GET None (Some rid) s2 = release_response e"
    using e(1) ne e(3) by (rule GET_by_result_id)
  show "field (snd (POST reqBody now s)) ''resultId'' = Some (JStr rid)"
    using post(1) assms(7) by (simp add: submitted_response_def field_def)
  show "http_status (snd (PUT (JObj [(''resultId'', JStr rid), (''verificationId'', vid)]) later s1)) = 200"
    using put(1) by (simp add: verified_response_def)
  show "http_status (GET None (Some rid) s2) = 200"
    using g by (simp add: release_response_def)
  show "\<And>k v. map_of (rev kvs) k = Some v \<Longrightarrow> field (GET None (Some rid) s2) k = Some v"
    using release_fields(1) [OF e(2)] g e(2) by simp
  show "map_of (rev kvs) ''status'' = None \<Longrightarrow>
         field (GET None (Some rid) s2) ''status'' = Some (JStr ''verified'')"
    using release_fields(2) [OF e(2)] g e(2) by simp
  show "map_of (rev kvs) ''complete_scan'' = None \<Longrightarrow>
         field (GET None (Some rid) s2) ''complete_scan'' = Some (JBool True)"
    using release_fields(3) [OF e(2)] g e(2) by simp
  show "map_of (rev kvs) ''voice_verified'' = None \<Longrightarrow>
         field (GET None (Some rid) s2) ''voice_verified'' = Some (JBool True)"
    using release_fields(4) [OF e(2)] g e(2) by simp
  show "map_of (rev kvs) ''verificationId'' = None \<Longrightarrow>
         field (GET None (Some rid) s2) ''verificationId'' = Some vid"
    using release_fields(5) [OF e(2)] g e(2) e(4) by simp
qed

subsection \<open>Fetching a result that is still pending\<close>

text \<open>
  By session id the handler looks in the verified table and then in the pending table; by
  result id it looks in the verified table only.
\<close>

lemma GET_pending_by_session:
  assumes "(rid, p) \<in> set (pendingResults s)" and "sessionId p = JStr sid" and "sid \<noteq> []"
    and "\<forall>(k, e)\<in>set (verifiedResults s). sessionId e \<noteq> JStr sid"
  shows "GET (Some sid) None s = still_pending_response ''Voice verification not yet completed''"
proof -
  have f: "find (\<lambda>(key, data). sessionId data = JStr sid) (verifiedResults s) = None"
    using assms(4) by (auto simp: find_None_iff)
  have l: "list_ex (\<lambda>(key, data). sessionId data = JStr sid) (pendingResults s)"
    using assms(1,2) by (auto simp: list_ex_iff)
  show ?thesis using f l assms(3) by (simp add: GET_def truthy_str_def)
qed

lemma GET_pending_by_result_id:
  assumes "rid \<noteq> []" and "map_of (verifiedResults s) rid = None"
  shows "GET sidParam (Some rid) s = not_found_response"
proof -
  obtain c cs where r: "rid = c # cs" using assms(1) by (cases rid) auto
  show ?thesis using assms r by (simp add: GET_def truthy_str_def answer_def)
qed



text \<open>
  C4. Submitting a scan whose data carries its own \<open>status\<close> member, as every completed
  scan does, then marking it verified and fetching it by result id: the released answer
  has the scan's status, not \<open>verified\<close>, because the scan data is spread over the
  answer's own members.
\<close>

theorem round_trip_status_overridden:
  "http_status (snd (POST scan_success_submit 1000 empty_store)) = 200
   \<and> field (snd (POST scan_success_submit 1000 empty_store)) ''resultId''
       = Some (JStr ''result_s1_1000'')
   \<and> http_status (snd (PUT scenario_mark 2000 (run [Submit scan_success_submit 1000] empty_store)))
       = 200
   \<and> field (GET None (Some ''result_s1_1000'')
              (run [Submit scan_success_submit 1000, MarkVerified scenario_mark 2000] empty_store))
        ''status'' = Some (JStr ''success'')"
  by code_simp

theorem round_trip_status_overridden_witness:
  "field (GET None (Some ''result_s1_1000'')
            (run [Submit scan_success_submit 1000, MarkVerified scenario_mark 2000] empty_store))
      ''status'' \<noteq> Some (JStr ''verified'')"
  using round_trip_status_overridden by simp

text \<open>
  C5. An entry that is only in the pending table, fetched by its result id: the answer
  is "not found" (404), not "still pending". Fetched by its session id the answer is
  "still pending".
\<close>

theorem fetch_pending_by_result_id:
  "map_of (pendingResults (run [Submit scenario_submit 1000] empty_store)) ''result_s1_1000''
     \<noteq> None
   \<and> verifiedResults (run [Submit scenario_submit 1000] empty_store) = []
   \<and> GET None (Some ''result_s1_1000'') (run [Submit scenario_submit 1000] empty_store)
       = not_found_response
   \<and> field (GET None (Some ''result_s1_1000'') (run [Submit scenario_submit 1000] empty_store))
       ''status'' = None
   \<and> field (GET (Some ''s1'') None (run [Submit scenario_submit 1000] empty_store))
       ''status'' = Some (JStr ''pending_voice_verification'')"
  by code_simp

theorem fetch_pending_by_result_id_witness:
  "http_status (GET None (Some ''result_s1_1000'')
      (run [Submit scenario_submit 1000] empty_store)) = 404"
  using fetch_pending_by_result_id by (simp add: not_found_response_def)


section \<open>Properties of the capture loops\<close>

subsection \<open>The invariant and the steps that keep it\<close>

lemma at_least_or0:
  "at_least (Some (case v of None \<Rightarrow> 0 | Some n \<Rightarrow> n)) 4 \<Longrightarrow> at_least v 4"
  by (cases v) (auto simp: at_least_def)

lemma resolved_ok_cong:
  "lastApiResponse t = lastApiResponse s \<Longrightarrow> promise t = promise s \<Longrightarrow>
   resolved_ok good Q t = resolved_ok good Q s"
  by (simp add: resolved_ok_def)

lemma cleanup_fields [simp]:
  "lastApiResponse (cleanup s) = lastApiResponse s"
  "promise (cleanup s) = promise s"
  "successfulFramesCount (cleanup s) = successfulFramesCount s"
  "isComplete (cleanup s) = isComplete s"
  "hasReceivedSuccess (cleanup s) = hasReceivedSuccess s"
  by (simp_all add: cleanup_def)

lemma resolved_ok_cleanup [simp]: "resolved_ok good Q (cleanup s) = resolved_ok good Q s"
  by (rule resolved_ok_cong) simp_all

lemma resolved_ok_reject [simp]: "resolved_ok good Q (reject m s) = resolved_ok good Q s"
  by (cases "promise s") (simp_all add: resolved_ok_def reject_def)

lemma resolved_ok_resolve:
  "resolved_ok good Q s \<Longrightarrow> good r \<Longrightarrow> Q r \<Longrightarrow> resolved_ok good Q (resolve r s)"
  by (cases "promise s") (simp_all add: resolved_ok_def resolve_def)

lemma resolve_reject [simp]: "resolve r (reject m s) = reject m s"
  by (simp add: resolve_def reject_def)

lemma resolved_ok_updates [simp]:
  "resolved_ok good Q (s\<lparr>isComplete := b\<rparr>) = resolved_ok good Q s"
  "resolved_ok good Q (s\<lparr>hasReceivedSuccess := b\<rparr>) = resolved_ok good Q s"
  "resolved_ok good Q (s\<lparr>uiPhase := p\<rparr>) = resolved_ok good Q s"
  "resolved_ok good Q (s\<lparr>uiError := e\<rparr>) = resolved_ok good Q s"
  "resolved_ok good Q (s\<lparr>frameNumber := n\<rparr>) = resolved_ok good Q s"
  "resolved_ok good Q (s\<lparr>inFlight := k\<rparr>) = resolved_ok good Q s"
  "resolved_ok good Q (s\<lparr>timeoutId := b\<rparr>) = resolved_ok good Q s"
  "resolved_ok good Q (s\<lparr>captureIntervalRef := b\<rparr>) = resolved_ok good Q s"
  "resolved_ok good Q (s\<lparr>maxFramesReachedTime := t\<rparr>) = resolved_ok good Q s"
  "resolved_ok good Q (s\<lparr>failureCalls := fc\<rparr>) = resolved_ok good Q s"
  by (simp_all add: resolved_ok_def)

lemma resolved_ok_fail_with [simp]:
  "resolved_ok good Q (fail_with a b c s) = resolved_ok good Q s"
  by (simp add: fail_with_def)

lemma resolved_ok_record:
  "resolved_ok good Q s \<Longrightarrow> Q r \<Longrightarrow> resolved_ok good Q (record_response r s)"
  by (simp add: resolved_ok_def record_response_def)

lemma resolved_ok_last: "resolved_ok good Q s \<Longrightarrow> lastApiResponse s = Some l \<Longrightarrow> Q l"
  by (simp add: resolved_ok_def)

lemma reply_in_replies: "Reply r now \<in> set evs \<Longrightarrow> r \<in> set (replies evs)"
  by (force simp: replies_def)

lemma resolved_ok_initial:
  "resolved_ok good Q initial_capture" "lastApiResponse initial_capture = None"
  by (simp_all add: resolved_ok_def initial_capture_def)

subsection \<open>The timer stays armed until the promise is settled\<close>

lemma timer_kept_settled: "is_settled s \<Longrightarrow> timer_kept s"
  by (simp add: timer_kept_def)

lemma is_settled_resolve [simp]: "is_settled (resolve r s)"
  by (simp add: resolve_def is_settled_def)

lemma is_settled_reject [simp]: "is_settled (reject m s)"
  by (simp add: reject_def is_settled_def)

lemma is_settled_fail_with [simp]: "is_settled (fail_with a b c s)"
  by (simp add: fail_with_def)

lemma is_settled_updates [simp]:
  "is_settled (cleanup s) = is_settled s"
  "is_settled (record_response r s) = is_settled s"
  "is_settled (s\<lparr>timeoutId := b\<rparr>) = is_settled s"
  "is_settled (s\<lparr>isComplete := b\<rparr>) = is_settled s"
  "is_settled (s\<lparr>hasReceivedSuccess := b\<rparr>) = is_settled s"
  "is_settled (s\<lparr>uiPhase := p\<rparr>) = is_settled s"
  "is_settled (s\<lparr>uiError := e\<rparr>) = is_settled s"
  "is_settled (s\<lparr>frameNumber := n\<rparr>) = is_settled s"
  "is_settled (s\<lparr>inFlight := k\<rparr>) = is_settled s"
  "is_settled (s\<lparr>captureIntervalRef := b\<rparr>) = is_settled s"
  "is_settled (s\<lparr>maxFramesReachedTime := t\<rparr>) = is_settled s"
  "is_settled (s\<lparr>failureCalls := fc\<rparr>) = is_settled s"
  by (simp_all add: is_settled_def record_response_def cleanup_def)

lemma record_response_fields [simp]:
  "timeoutId (record_response r s) = timeoutId s"
  "isComplete (record_response r s) = isComplete s"
  "hasReceivedSuccess (record_response r s) = hasReceivedSuccess s"
  by (simp_all add: record_response_def)

lemma timer_kept_record [simp]: "timer_kept (record_response r s) = timer_kept s"
  by (simp add: timer_kept_def)

lemma timer_kept_updates [simp]:
  "timer_kept (s\<lparr>frameNumber := n\<rparr>) = timer_kept s"
  "timer_kept (s\<lparr>inFlight := k\<rparr>) = timer_kept s"
  "timer_kept (s\<lparr>captureIntervalRef := b\<rparr>) = timer_kept s"
  "timer_kept (s\<lparr>maxFramesReachedTime := t\<rparr>) = timer_kept s"
  by (simp_all add: timer_kept_def is_settled_def)

lemma timer_kept_cleanup: "timer_kept s \<Longrightarrow> hasReceivedSuccess s \<Longrightarrow> timer_kept (cleanup s)"
  by (simp add: timer_kept_def)

lemma timer_kept_initial:
  "timer_kept (initial_capture\<lparr>captureIntervalRef := True, timeoutId := True\<rparr>)"
  by (simp add: timer_kept_def initial_capture_def)

lemma timer_kept_armed: "timer_kept (s\<lparr>timeoutId := True\<rparr>) = (\<not> (isComplete s \<or> hasReceivedSuccess s) \<or> is_settled s)"
  by (simp add: timer_kept_def)

subsection \<open>Back side\<close>

lemma back_processFrame_ok:
  "resolved_ok good Q s \<Longrightarrow> refs \<or> lastApiResponse s = None \<Longrightarrow>
   resolved_ok good Q (back_processFrame frameOk stop refs now s)"
  by (auto simp: back_processFrame_def Let_def)

lemma back_start_ok: "resolved_ok good Q (back_start frameOk stop refs now)"
proof -
  have "resolved_ok good Q (back_processFrame frameOk stop refs now initial_capture)"
    using resolved_ok_initial by (simp add: back_processFrame_ok)
  then show ?thesis by (simp add: back_start_def)
qed

lemma back_maxFrames_fallback_ok:
  assumes "resolved_ok back_requirements Q s"
    and "\<And>l. Q l \<Longrightarrow> \<not> terminal_status l \<and> \<not> legacy_final l"
  shows "resolved_ok back_requirements Q (back_maxFrames_fallback Back s)"
proof (cases "lastApiResponse s")
  case None
  then show ?thesis using assms(1) by (simp add: back_maxFrames_fallback_def Let_def)
next
  case (Some l)
  then have q: "Q l" using assms(1) by (rule resolved_ok_last [rotated])
  then have nt: "\<not> terminal_status l" "\<not> legacy_final l" using assms(2) by auto
  show ?thesis using Some nt q assms(1) at_least_or0 [of "back_frames_buffered l"]
    by (auto simp: back_maxFrames_fallback_def Let_def back_requirements_def
        requiredBackSideFeatures_def intro!: resolved_ok_resolve)
qed

lemma back_onTimeout_ok:
  assumes "resolved_ok back_requirements Q s"
    and "\<And>l. Q l \<Longrightarrow> \<not> terminal_status l \<and> \<not> legacy_final l"
  shows "resolved_ok back_requirements Q (back_onTimeout Back s)"
proof (cases "lastApiResponse s")
  case None
  then show ?thesis using assms(1) by (simp add: back_onTimeout_def Let_def)
next
  case (Some l)
  then have q: "Q l" using assms(1) by (rule resolved_ok_last [rotated])
  then have nt: "\<not> terminal_status l" "\<not> legacy_final l" using assms(2) by auto
  show ?thesis using Some nt q assms(1) at_least_or0 [of "back_frames_buffered l"]
    by (auto simp: back_onTimeout_def Let_def back_requirements_def
        requiredBackSideFeatures_def intro!: resolved_ok_resolve)
qed

lemma back_adjudicate_ok:
  assumes "resolved_ok back_requirements Q s"
    and "\<And>l. Q l \<Longrightarrow> \<not> terminal_status l \<and> \<not> legacy_final l"
    and "Q r"
  shows "resolved_ok back_requirements Q (back_adjudicate Back r now s)"
  using assms(1,3) back_maxFrames_fallback_ok [OF assms(1,2)]
  by (auto simp: back_adjudicate_def Let_def back_requirements_def requiredBackSideFeatures_def
      intro!: resolved_ok_resolve)

lemma back_onResponse_ok:
  assumes "resolved_ok back_requirements Q s"
    and "\<And>l. Q l \<Longrightarrow> \<not> terminal_status l \<and> \<not> legacy_final l"
    and "Q r"
  shows "resolved_ok back_requirements Q (back_onResponse Back r now s)"
proof -
  have nt: "\<not> terminal_status r" "\<not> legacy_final r" using assms by auto
  have "resolved_ok back_requirements Q (back_adjudicate Back r now (record_response r s))"
    using assms by (intro back_adjudicate_ok resolved_ok_record)
  then show ?thesis using nt assms(1) by (simp add: back_onResponse_def)
qed

lemma back_step_ok:
  assumes "resolved_ok back_requirements Q s"
    and "\<And>l. Q l \<Longrightarrow> \<not> terminal_status l \<and> \<not> legacy_final l"
    and "case e of Reply r now \<Rightarrow> Q r | Tick stop refs now \<Rightarrow> refs | _ \<Rightarrow> True"
  shows "resolved_ok back_requirements Q (back_step frameOk Back s e)"
proof (cases e)
  case (Tick stop refs now)
  then show ?thesis using assms(1,3) by (simp add: back_processFrame_ok)
next
  case (Reply r now)
  then have "Q r" using assms(3) by simp
  then show ?thesis using Reply assms(1,2) by (simp add: back_onResponse_ok)
next
  case ReplyFailed
  then show ?thesis using assms(1) by simp
next
  case TimeoutFired
  then show ?thesis using assms(1,2) by (simp add: back_onTimeout_ok)
qed

lemma back_run_ok:
  assumes "\<And>l. Q l \<Longrightarrow> \<not> terminal_status l \<and> \<not> legacy_final l"
  shows "\<forall>e\<in>set evs. (case e of Reply r now \<Rightarrow> Q r | Tick stop refs now \<Rightarrow> refs | _ \<Rightarrow> True) \<Longrightarrow>
    resolved_ok back_requirements Q s \<Longrightarrow>
    resolved_ok back_requirements Q (back_run frameOk Back s evs)"
proof (induction evs arbitrary: s)
  case Nil
  then show ?case by (simp add: back_run_def)
next
  case (Cons e evs)
  have "resolved_ok back_requirements Q (back_step frameOk Back s e)"
    using Cons.prems by (intro back_step_ok assms) simp_all
  then have "resolved_ok back_requirements Q
      (back_run frameOk Back (back_step frameOk Back s e) evs)"
    using Cons.prems by (intro Cons.IH) simp_all
  then show ?case by (simp add: back_run_def)
qed

lemma back_processFrame_timer:
  "timer_kept s \<Longrightarrow> timer_kept (back_processFrame frameOk stop refs now s)"
  by (cases "lastApiResponse s")
     (simp_all add: back_processFrame_def Let_def timer_kept_settled timer_kept_cleanup)

lemma back_maxFrames_fallback_settles [simp]: "is_settled (back_maxFrames_fallback ph s)"
  by (cases "lastApiResponse s") (simp_all add: back_maxFrames_fallback_def Let_def)

lemma back_adjudicate_timer: "timer_kept s \<Longrightarrow> timer_kept (back_adjudicate ph r now s)"
  by (simp add: back_adjudicate_def Let_def timer_kept_settled)

lemma back_adjudicate_settled: "is_settled s \<Longrightarrow> is_settled (back_adjudicate ph r now s)"
  by (simp add: back_adjudicate_def Let_def)

lemma back_onResponse_timer: "timer_kept s \<Longrightarrow> timer_kept (back_onResponse ph r now s)"
  by (simp add: back_onResponse_def timer_kept_settled back_adjudicate_timer)

lemma back_onResponse_settled: "is_settled s \<Longrightarrow> is_settled (back_onResponse ph r now s)"
  by (simp add: back_onResponse_def back_adjudicate_settled)

lemma back_onTimeout_settles:
  "timer_kept s \<Longrightarrow> is_settled (back_onTimeout ph (s\<lparr>timeoutId := False\<rparr>))"
  by (cases "lastApiResponse s") (auto simp: back_onTimeout_def Let_def timer_kept_def)

lemma back_step_timer: "timer_kept s \<Longrightarrow> timer_kept (back_step frameOk ph s e)"
proof (cases e)
  case (Tick stop refs now)
  assume "timer_kept s"
  then show ?thesis using Tick by (simp add: back_processFrame_timer)
next
  case (Reply r now)
  assume k: "timer_kept s"
  then have "timer_kept (s\<lparr>inFlight := inFlight s - 1\<rparr>)" by simp
  then show ?thesis using Reply k by (simp add: back_onResponse_timer)
next
  case ReplyFailed
  assume "timer_kept s"
  then show ?thesis using ReplyFailed by simp
next
  case TimeoutFired
  assume k: "timer_kept s"
  show ?thesis using TimeoutFired k back_onTimeout_settles [OF k, of ph]
    by (simp add: timer_kept_settled)
qed

lemma back_step_settled: "is_settled s \<Longrightarrow> is_settled (back_step frameOk ph s e)"
proof (cases e)
  case (Tick stop refs now)
  assume "is_settled s"
  then show ?thesis using Tick
    by (cases "lastApiResponse s") (simp_all add: back_processFrame_def Let_def)
next
  case (Reply r now)
  assume "is_settled s"
  then show ?thesis using Reply by (simp add: back_onResponse_settled)
next
  case ReplyFailed
  assume "is_settled s"
  then show ?thesis using ReplyFailed by simp
next
  case TimeoutFired
  assume k: "is_settled s"
  show ?thesis using TimeoutFired k back_onTimeout_settles [OF timer_kept_settled [OF k], of ph]
    by simp
qed

lemma back_run_settled: "is_settled s \<Longrightarrow> is_settled (back_run frameOk ph s evs)"
  by (induction evs arbitrary: s) (simp_all add: back_run_def back_step_settled)

lemma back_run_timeout_settles:
  "timer_kept s \<Longrightarrow> TimeoutFired \<in> set evs \<Longrightarrow> is_settled (back_run frameOk ph s evs)"
proof (induction evs arbitrary: s)
  case Nil
  then show ?case by simp
next
  case (Cons e evs)
  have k: "timer_kept (back_step frameOk ph s e)" using Cons.prems(1) by (rule back_step_timer)
  show ?case
  proof (cases "e = TimeoutFired")
    case True
    have "is_settled (back_step frameOk ph s e)"
      using True Cons.prems(1) back_onTimeout_settles [OF Cons.prems(1), of ph]
      by (auto simp: timer_kept_def)
    then have "is_settled (back_run frameOk ph (back_step frameOk ph s e) evs)"
      by (rule back_run_settled)
    then show ?thesis by (simp add: back_run_def)
  next
    case False
    then have "TimeoutFired \<in> set evs" using Cons.prems(2) by simp
    then have "is_settled (back_run frameOk ph (back_step frameOk ph s e) evs)"
      using k by (intro Cons.IH)
    then show ?thesis by (simp add: back_run_def)
  qed
qed

lemma back_start_timer: "timer_kept (back_start frameOk stop refs now)"
proof -
  have i: "\<not> isComplete initial_capture" "\<not> hasReceivedSuccess initial_capture"
    "lastApiResponse initial_capture = None"
    by (simp_all add: initial_capture_def)
  have "\<not> (isComplete (back_processFrame frameOk stop refs now initial_capture)
          \<or> hasReceivedSuccess (back_processFrame frameOk stop refs now initial_capture))
        \<or> is_settled (back_processFrame frameOk stop refs now initial_capture)"
    using i by (simp add: back_processFrame_def Let_def)
  then show ?thesis by (simp add: back_start_def timer_kept_def)
qed

text \<open>
  C2, as amended. A back-side run in which no reply has a terminal status, none carries
  \<open>encrypted_card_data\<close> together with a status, and the video and canvas elements are there
  at every tick: if it resolves, it resolves with one of its replies, and that reply has
  at least 4 buffered back frames and at least 2 of the 3 feature flags. So a run whose
  replies all have fewer than 2 flags never resolves, and once the 30 second timer has
  fired it is rejected.
\<close>

theorem back_resolves_only_on_requirements:
  assumes "\<forall>r\<in>set (replies evs). \<not> terminal_status r \<and> \<not> legacy_final r"
    and "refs_stay evs"
  shows "(promise (back_run frameOk Back (back_start frameOk stop0 refs0 now0) evs)
            = Some (Resolved r)
          \<longrightarrow> back_requirements r \<and> r \<in> set (replies evs))
       \<and> ((\<forall>r\<in>set (replies evs). countBackSideFeatures r < 2) \<longrightarrow>
            (\<forall>r. promise (back_run frameOk Back (back_start frameOk stop0 refs0 now0) evs)
                   \<noteq> Some (Resolved r))
            \<and> (TimeoutFired \<in> set evs \<longrightarrow>
                 (\<exists>msg. promise (back_run frameOk Back (back_start frameOk stop0 refs0 now0) evs)
                          = Some (Rejected msg))))"
proof -
  let ?Q = "\<lambda>r. r \<in> set (replies evs)"
  let ?s = "back_run frameOk Back (back_start frameOk stop0 refs0 now0) evs"
  have ev: "\<forall>e\<in>set evs.
      (case e of Reply r now \<Rightarrow> ?Q r | Tick stop refs now \<Rightarrow> refs | _ \<Rightarrow> True)"
    using assms(2) by (auto simp: refs_stay_def list_all_iff reply_in_replies split: event.splits)
  have "resolved_ok back_requirements ?Q ?s"
    using assms(1) ev by (intro back_run_ok back_start_ok) auto
  then have *: "back_requirements r' \<and> r' \<in> set (replies evs)"
    if "promise ?s = Some (Resolved r')" for r'
    using that by (simp add: resolved_ok_def)
  have never: "promise ?s \<noteq> Some (Resolved r')"
    if "\<forall>r\<in>set (replies evs). countBackSideFeatures r < 2" for r'
    using * [of r'] that by (fastforce simp: back_requirements_def)
  have "\<exists>msg. promise ?s = Some (Rejected msg)"
    if few: "\<forall>r\<in>set (replies evs). countBackSideFeatures r < 2" and t: "TimeoutFired \<in> set evs"
  proof -
    have "is_settled ?s" using back_start_timer t by (rule back_run_timeout_settles)
    then obtain o' where o: "promise ?s = Some o'" by (auto simp: is_settled_def)
    then show ?thesis using never [OF few] by (cases o') auto
  qed
  then show ?thesis using * never by blast
qed

theorem back_resolves_only_on_requirements_witness:
  "replies (timed_out_run one_feature_five_frames)
     = [one_feature_five_frames, one_feature_five_frames]
   \<and> \<not> terminal_status one_feature_five_frames
   \<and> \<not> legacy_final one_feature_five_frames
   \<and> refs_stay (timed_out_run one_feature_five_frames)
   \<and> countBackSideFeatures one_feature_five_frames < 2
   \<and> at_least (back_frames_buffered one_feature_five_frames) 4
   \<and> promise (back_run True Back (back_start True False True 0)
        (timed_out_run one_feature_five_frames))
       = Some (Rejected ''Insufficient back side features'')
   \<and> promise (back_run True Back (back_start True False True 0)
        (max_frames_run one_feature_five_frames))
       = Some (Rejected ''Insufficient back side features detected'')"
proof -
  have h: "replies (timed_out_run one_feature_five_frames)
       = [one_feature_five_frames, one_feature_five_frames]
     \<and> \<not> terminal_status one_feature_five_frames
     \<and> \<not> legacy_final one_feature_five_frames
     \<and> refs_stay (timed_out_run one_feature_five_frames)
     \<and> countBackSideFeatures one_feature_five_frames < 2
     \<and> at_least (back_frames_buffered one_feature_five_frames) 4"
    by code_simp
  have e1: "promise (back_run True Back (back_start True False True 0)
        (timed_out_run one_feature_five_frames))
       = Some (Rejected ''Insufficient back side features'')"
    by code_simp
  have e2: "promise (back_run True Back (back_start True False True 0)
        (max_frames_run one_feature_five_frames))
       = Some (Rejected ''Insufficient back side features detected'')"
    by code_simp
  have "\<forall>r\<in>set (replies (timed_out_run one_feature_five_frames)).
      \<not> terminal_status r \<and> \<not> legacy_final r"
    using h by simp
  from back_resolves_only_on_requirements [OF this, of True False True 0 one_feature_five_frames]
    h e1 e2
  show ?thesis by blast
qed

text \<open>
  Without these restrictions the statement fails in two ways. A reply with one flag and a non-terminal
  status that carries \<open>encrypted_card_data\<close> resolves the run at once; and when the video
  element is gone at a tick, the run resolves with the last recorded reply, whatever it
  holds.
\<close>

theorem back_resolves_without_requirements:
  "\<not> terminal_status legacy_one_feature
   \<and> \<not> back_requirements legacy_one_feature
   \<and> promise (back_run True Back (back_start True False True 0) [Reply legacy_one_feature 100])
       = Some (Resolved legacy_one_feature)
   \<and> \<not> terminal_status one_feature_five_frames
   \<and> \<not> back_requirements one_feature_five_frames
   \<and> promise (back_run True Back (back_start True False True 0)
        [Reply one_feature_five_frames 100, Tick False False 800])
       = Some (Resolved one_feature_five_frames)"
  by code_simp

text \<open>
  C3. A reply with 4 buffered frames, two flags and a non-terminal status resolves
  the back-side run through the feature check, and the resolved value is the reply as
  received, \<open>encrypted_data\<close> included. Only the terminal-status path hands on the
  sanitized copy.
\<close>

theorem back_feature_success_keeps_secret:
  "\<not> terminal_status two_features_with_secret
   \<and> back_requirements two_features_with_secret
   \<and> promise (back_run True Back (back_start True False True 0)
        [Reply two_features_with_secret 100])
       = Some (Resolved two_features_with_secret)
   \<and> encrypted_data two_features_with_secret = Some ''payload-secret''"
  by code_simp

theorem back_feature_success_keeps_secret_witness:
  "(case promise (back_run True Back (back_start True False True 0)
        [Reply two_features_with_secret 100]) of
      Some (Resolved r) \<Rightarrow> encrypted_data r = Some ''payload-secret''
    | _ \<Rightarrow> False)"
  using back_feature_success_keeps_secret by simp

lemma back_terminal_resolves_sanitized:
  assumes "terminal_status r" and "promise s = None" and "inFlight s > 0"
  shows "promise (back_step frameOk ph s (Reply r now)) = Some (Resolved (sanitize r))"
    and "encrypted_data (sanitize r) = None"
    and "encrypted_card_data (sanitize r) = None"
  using assms by (simp_all add: back_onResponse_def resolve_def cleanup_def sanitize_def)


subsection \<open>Front side\<close>

lemma front_or0: "front_requirements_or0 l \<Longrightarrow> front_requirements l"
  by (simp add: front_requirements_or0_def front_requirements_def at_least_or0)

lemma front_processFrame_ok:
  "resolved_ok good Q s \<Longrightarrow> refs \<or> lastApiResponse s = None \<Longrightarrow>
   resolved_ok good Q (front_processFrame frameOk stop refs now s)"
  by (auto simp: front_processFrame_def Let_def)

lemma front_start_ok: "resolved_ok good Q (front_start frameOk stop refs now)"
proof -
  have "resolved_ok good Q (front_processFrame frameOk stop refs now initial_capture)"
    using resolved_ok_initial by (simp add: front_processFrame_ok)
  then show ?thesis by (simp add: front_start_def)
qed

lemma front_maxFrames_fallback_ok:
  assumes "resolved_ok front_requirements Q s"
  shows "resolved_ok front_requirements Q (front_maxFrames_fallback Front s)"
proof (cases "lastApiResponse s")
  case None
  then show ?thesis using assms by (simp add: front_maxFrames_fallback_def Let_def)
next
  case (Some l)
  then have q: "Q l" using assms by (rule resolved_ok_last [rotated])
  show ?thesis using Some q assms front_or0 [of l]
    by (auto simp: front_maxFrames_fallback_def Let_def intro!: resolved_ok_resolve)
qed

lemma front_onTimeout_ok:
  assumes "resolved_ok front_requirements Q s"
    and "\<And>l. Q l \<Longrightarrow> \<not> terminal_status l \<and> \<not> legacy_final l"
  shows "resolved_ok front_requirements Q (front_onTimeout Front s)"
proof (cases "lastApiResponse s")
  case None
  then show ?thesis using assms(1) by (simp add: front_onTimeout_def Let_def)
next
  case (Some l)
  then have q: "Q l" using assms(1) by (rule resolved_ok_last [rotated])
  then have nt: "\<not> terminal_status l" "\<not> legacy_final l" using assms(2) by auto
  show ?thesis using Some nt q assms(1) front_or0 [of l]
    by (auto simp: front_onTimeout_def Let_def intro!: resolved_ok_resolve)
qed

lemma front_adjudicate_ok:
  assumes "resolved_ok front_requirements Q s" and "Q r"
  shows "resolved_ok front_requirements Q (front_adjudicate Front r now s)"
  using assms front_maxFrames_fallback_ok [OF assms(1)]
  by (auto simp: front_adjudicate_def Let_def front_requirements_def
      intro!: resolved_ok_resolve)

lemma front_onResponse_ok:
  assumes "resolved_ok front_requirements Q s"
    and "\<And>l. Q l \<Longrightarrow> \<not> terminal_status l \<and> \<not> legacy_final l"
    and "Q r"
  shows "resolved_ok front_requirements Q (front_onResponse Front r now s)"
proof -
  have nt: "\<not> terminal_status r" "\<not> legacy_final r" using assms by auto
  have "resolved_ok front_requirements Q (front_adjudicate Front r now (record_response r s))"
    using assms by (intro front_adjudicate_ok resolved_ok_record)
  then show ?thesis using nt assms(1) by (simp add: front_onResponse_def)
qed

lemma front_step_ok:
  assumes "resolved_ok front_requirements Q s"
    and "\<And>l. Q l \<Longrightarrow> \<not> terminal_status l \<and> \<not> legacy_final l"
    and "case e of Reply r now \<Rightarrow> Q r | Tick stop refs now \<Rightarrow> refs | _ \<Rightarrow> True"
  shows "resolved_ok front_requirements Q (front_step frameOk Front s e)"
proof (cases e)
  case (Tick stop refs now)
  then show ?thesis using assms(1,3) by (simp add: front_processFrame_ok)
next
  case (Reply r now)
  then have "Q r" using assms(3) by simp
  then show ?thesis using Reply assms(1,2) by (simp add: front_onResponse_ok)
next
  case ReplyFailed
  then show ?thesis using assms(1) by simp
next
  case TimeoutFired
  then show ?thesis using assms(1,2) by (simp add: front_onTimeout_ok)
qed

lemma front_run_ok:
  assumes "\<And>l. Q l \<Longrightarrow> \<not> terminal_status l \<and> \<not> legacy_final l"
  shows "\<forall>e\<in>set evs. (case e of Reply r now \<Rightarrow> Q r | Tick stop refs now \<Rightarrow> refs | _ \<Rightarrow> True) \<Longrightarrow>
    resolved_ok front_requirements Q s \<Longrightarrow>
    resolved_ok front_requirements Q (front_run frameOk Front s evs)"
proof (induction evs arbitrary: s)
  case Nil
  then show ?case by (simp add: front_run_def)
next
  case (Cons e evs)
  have "resolved_ok front_requirements Q (front_step frameOk Front s e)"
    using Cons.prems by (intro front_step_ok assms) simp_all
  then have "resolved_ok front_requirements Q
      (front_run frameOk Front (front_step frameOk Front s e) evs)"
    using Cons.prems by (intro Cons.IH) simp_all
  then show ?case by (simp add: front_run_def)
qed

lemma front_processFrame_timer:
  "timer_kept s \<Longrightarrow> timer_kept (front_processFrame frameOk stop refs now s)"
  by (cases "lastApiResponse s")
     (simp_all add: front_processFrame_def Let_def timer_kept_settled timer_kept_cleanup)

lemma front_maxFrames_fallback_settles [simp]: "is_settled (front_maxFrames_fallback ph s)"
  by (cases "lastApiResponse s") (simp_all add: front_maxFrames_fallback_def Let_def)

lemma front_adjudicate_timer:
  "timer_kept s \<Longrightarrow> timer_kept (front_adjudicate ph r now s)"
  by (simp add: front_adjudicate_def Let_def timer_kept_settled)

lemma front_adjudicate_settled:
  "is_settled s \<Longrightarrow> is_settled (front_adjudicate ph r now s)"
  by (simp add: front_adjudicate_def Let_def)

lemma front_onResponse_timer:
  "timer_kept s \<Longrightarrow> \<not> terminal_status r \<Longrightarrow> timer_kept (front_onResponse ph r now s)"
  by (simp add: front_onResponse_def timer_kept_settled front_adjudicate_timer)

lemma front_onResponse_settled:
  "is_settled s \<Longrightarrow> is_settled (front_onResponse ph r now s)"
  by (simp add: front_onResponse_def front_adjudicate_settled)

lemma front_onTimeout_settles:
  "timer_kept s \<Longrightarrow> is_settled (front_onTimeout ph (s\<lparr>timeoutId := False\<rparr>))"
  by (cases "lastApiResponse s") (auto simp: front_onTimeout_def Let_def timer_kept_def)

lemma front_step_timer:
  assumes "timer_kept s"
    and "case e of Reply r now \<Rightarrow> \<not> terminal_status r | _ \<Rightarrow> True"
  shows "timer_kept (front_step frameOk ph s e)"
proof (cases e)
  case (Tick stop refs now)
  then show ?thesis using assms(1) by (simp add: front_processFrame_timer)
next
  case (Reply r now)
  have "timer_kept (s\<lparr>inFlight := inFlight s - 1\<rparr>)" using assms(1) by simp
  then show ?thesis using Reply assms by (simp add: front_onResponse_timer)
next
  case ReplyFailed
  then show ?thesis using assms(1) by simp
next
  case TimeoutFired
  show ?thesis using TimeoutFired assms(1) front_onTimeout_settles [OF assms(1), of ph]
    by (simp add: timer_kept_settled)
qed

lemma front_step_settled: "is_settled s \<Longrightarrow> is_settled (front_step frameOk ph s e)"
proof (cases e)
  case (Tick stop refs now)
  assume "is_settled s"
  then show ?thesis using Tick
    by (cases "lastApiResponse s") (simp_all add: front_processFrame_def Let_def)
next
  case (Reply r now)
  assume "is_settled s"
  then show ?thesis using Reply by (simp add: front_onResponse_settled)
next
  case ReplyFailed
  assume "is_settled s"
  then show ?thesis using ReplyFailed by simp
next
  case TimeoutFired
  assume k: "is_settled s"
  show ?thesis using TimeoutFired k front_onTimeout_settles [OF timer_kept_settled [OF k], of ph]
    by simp
qed

lemma front_run_settled: "is_settled s \<Longrightarrow> is_settled (front_run frameOk ph s evs)"
  by (induction evs arbitrary: s) (simp_all add: front_run_def front_step_settled)

lemma front_run_timeout_settles:
  "timer_kept s \<Longrightarrow>
   \<forall>e\<in>set evs. (case e of Reply r now \<Rightarrow> \<not> terminal_status r | _ \<Rightarrow> True) \<Longrightarrow>
   TimeoutFired \<in> set evs \<Longrightarrow> is_settled (front_run frameOk ph s evs)"
proof (induction evs arbitrary: s)
  case Nil
  then show ?case by simp
next
  case (Cons e evs)
  have k: "timer_kept (front_step frameOk ph s e)"
    using Cons.prems(1,2) by (intro front_step_timer) simp_all
  show ?case
  proof (cases "e = TimeoutFired")
    case True
    have "is_settled (front_step frameOk ph s e)"
      using True Cons.prems(1) front_onTimeout_settles [OF Cons.prems(1), of ph]
      by (auto simp: timer_kept_def)
    then have "is_settled (front_run frameOk ph (front_step frameOk ph s e) evs)"
      by (rule front_run_settled)
    then show ?thesis by (simp add: front_run_def)
  next
    case False
    then have "TimeoutFired \<in> set evs" using Cons.prems(3) by simp
    then have "is_settled (front_run frameOk ph (front_step frameOk ph s e) evs)"
      using k Cons.prems(2) by (intro Cons.IH) simp_all
    then show ?thesis by (simp add: front_run_def)
  qed
qed

lemma front_start_timer: "timer_kept (front_start frameOk stop refs now)"
proof -
  have i: "\<not> isComplete initial_capture" "\<not> hasReceivedSuccess initial_capture"
    "lastApiResponse initial_capture = None"
    by (simp_all add: initial_capture_def)
  have "\<not> (isComplete (front_processFrame frameOk stop refs now initial_capture)
          \<or> hasReceivedSuccess (front_processFrame frameOk stop refs now initial_capture))
        \<or> is_settled (front_processFrame frameOk stop refs now initial_capture)"
    using i by (simp add: front_processFrame_def Let_def)
  then show ?thesis by (simp add: front_start_def timer_kept_def)
qed

text \<open>
  C8, as amended. A front-side run in which no reply has a terminal status, none
  carries \<open>encrypted_card_data\<close> together with a status, and the video and canvas elements
  are there at every tick: if it resolves, it resolves with one of its replies, and that
  reply has at least 4 buffered front frames, \<open>chip = true\<close> and \<open>bank_logo = true\<close>. So a
  run whose replies never have \<open>bank_logo = true\<close> never resolves, and once the 30 second
  timer has fired it is rejected.
\<close>

theorem front_resolves_only_on_requirements:
  assumes "\<forall>r\<in>set (replies evs). \<not> terminal_status r \<and> \<not> legacy_final r"
    and "refs_stay evs"
  shows "(promise (front_run frameOk Front (front_start frameOk stop0 refs0 now0) evs)
            = Some (Resolved r)
          \<longrightarrow> front_requirements r \<and> r \<in> set (replies evs))
       \<and> ((\<forall>r\<in>set (replies evs). bank_logo r \<noteq> Some True) \<longrightarrow>
            (\<forall>r. promise (front_run frameOk Front (front_start frameOk stop0 refs0 now0) evs)
                   \<noteq> Some (Resolved r))
            \<and> (TimeoutFired \<in> set evs \<longrightarrow>
                 (\<exists>msg. promise (front_run frameOk Front (front_start frameOk stop0 refs0 now0) evs)
                          = Some (Rejected msg))))"
proof -
  let ?Q = "\<lambda>r. r \<in> set (replies evs)"
  let ?s = "front_run frameOk Front (front_start frameOk stop0 refs0 now0) evs"
  have ev: "\<forall>e\<in>set evs.
      (case e of Reply r now \<Rightarrow> ?Q r | Tick stop refs now \<Rightarrow> refs | _ \<Rightarrow> True)"
    using assms(2) by (auto simp: refs_stay_def list_all_iff reply_in_replies split: event.splits)
  have nt: "\<forall>e\<in>set evs. (case e of Reply r now \<Rightarrow> \<not> terminal_status r | _ \<Rightarrow> True)"
    using assms(1) by (auto simp: reply_in_replies split: event.splits)
  have "resolved_ok front_requirements ?Q ?s"
    using assms(1) ev by (intro front_run_ok front_start_ok) auto
  then have *: "front_requirements r' \<and> r' \<in> set (replies evs)"
    if "promise ?s = Some (Resolved r')" for r'
    using that by (simp add: resolved_ok_def)
  have never: "promise ?s \<noteq> Some (Resolved r')"
    if "\<forall>r\<in>set (replies evs). bank_logo r \<noteq> Some True" for r'
    using * [of r'] that by (fastforce simp: front_requirements_def)
  have "\<exists>msg. promise ?s = Some (Rejected msg)"
    if few: "\<forall>r\<in>set (replies evs). bank_logo r \<noteq> Some True" and t: "TimeoutFired \<in> set evs"
  proof -
    have "is_settled ?s" using front_start_timer nt t by (rule front_run_timeout_settles)
    then obtain o' where o: "promise ?s = Some o'" by (auto simp: is_settled_def)
    then show ?thesis using never [OF few] by (cases o') auto
  qed
  then show ?thesis using * never by blast
qed

theorem front_resolves_only_on_requirements_witness:
  "replies (timed_out_run chip_without_logo) = [chip_without_logo, chip_without_logo]
   \<and> \<not> terminal_status chip_without_logo
   \<and> \<not> legacy_final chip_without_logo
   \<and> refs_stay (timed_out_run chip_without_logo)
   \<and> chip chip_without_logo = Some True
   \<and> bank_logo chip_without_logo = Some False
   \<and> front_frames_buffered chip_without_logo = Some 5
   \<and> promise (front_run True Front (front_start True False True 0)
        (timed_out_run chip_without_logo))
       = Some (Rejected ''Front side requirements not met: chip and bank_logo must both be detected'')
   \<and> promise (front_run True Front (front_start True False True 0)
        (max_frames_run chip_without_logo))
       = Some (Rejected ''Front side requirements not met: chip and bank_logo must be detected'')"
proof -
  have h: "replies (timed_out_run chip_without_logo) = [chip_without_logo, chip_without_logo]
     \<and> \<not> terminal_status chip_without_logo
     \<and> \<not> legacy_final chip_without_logo
     \<and> refs_stay (timed_out_run chip_without_logo)
     \<and> chip chip_without_logo = Some True
     \<and> bank_logo chip_without_logo = Some False
     \<and> front_frames_buffered chip_without_logo = Some 5"
    by code_simp
  have e1: "promise (front_run True Front (front_start True False True 0)
        (timed_out_run chip_without_logo))
       = Some (Rejected ''Front side requirements not met: chip and bank_logo must both be detected'')"
    by code_simp
  have e2: "promise (front_run True Front (front_start True False True 0)
        (max_frames_run chip_without_logo))
       = Some (Rejected ''Front side requirements not met: chip and bank_logo must be detected'')"
    by code_simp
  have "\<forall>r\<in>set (replies (timed_out_run chip_without_logo)).
      \<not> terminal_status r \<and> \<not> legacy_final r"
    using h by simp
  from front_resolves_only_on_requirements [OF this, of True False True 0 chip_without_logo]
    h e1 e2
  show ?thesis by blast
qed

text \<open>
  Without these restrictions the statement fails in two ways: a reply without the bank logo that carries
  \<open>encrypted_card_data\<close> and a non-terminal status resolves the run at once; and when the
  video element is gone at a tick, the run resolves with the last recorded reply.
\<close>

theorem front_resolves_without_requirements:
  "\<not> terminal_status legacy_chip_without_logo
   \<and> \<not> front_requirements legacy_chip_without_logo
   \<and> promise (front_run True Front (front_start True False True 0)
        [Reply legacy_chip_without_logo 100])
       = Some (Resolved legacy_chip_without_logo)
   \<and> \<not> terminal_status chip_without_logo
   \<and> \<not> front_requirements chip_without_logo
   \<and> promise (front_run True Front (front_start True False True 0)
        [Reply chip_without_logo 100, Tick False False 800])
       = Some (Resolved chip_without_logo)"
  by code_simp


section \<open>The anti-spoof check ends the run\<close>






section \<open>Attempt counting\<close>

lemma hdf_fields [simp]:
  "attemptCount (handleDetectionFailure m op s) = attemptCount s + 1"
  "pageSessionId (handleDetectionFailure m op s) = pageSessionId s"
  "merchant_of (handleDetectionFailure m op s) = merchant_of s"
  by (simp_all add: handleDetectionFailure_def Let_def merchant_of_def
      split: option.splits list.splits)



lemma retry_fields [simp]:
  "attemptCount (handleFakeCardRetry s) = attemptCount s + 1"
  "pageSessionId (handleFakeCardRetry s) = pageSessionId s"
  "merchant_of (handleFakeCardRetry s) = merchant_of s"
  "reports (handleFakeCardRetry s) = reports s"
  by (simp_all add: handleFakeCardRetry_def Let_def merchant_of_def)



lemma caught_fields [simp]:
  "attemptCount (fake_card_caught side s) = attemptCount s"
  "pageSessionId (fake_card_caught side s) = pageSessionId s"
  "merchant_of (fake_card_caught side s) = merchant_of s"
  "reports (fake_card_caught side s) = reports s"
  "maxAttemptsReached (fake_card_caught side s) = maxAttemptsReached s"
  "currentPhase (fake_card_caught side s) = ''fake-card-error''"
  "fakeCardDetectedPhase (fake_card_caught side s) = Some side"
  by (simp_all add: fake_card_caught_def merchant_of_def)

text \<open>
  The handler itself does not test the flag: called in a state that is already at the
  ceiling it reports again. It is the test in the start functions that keeps a session to
  one report.
\<close>

lemma handler_alone_reports_again:
  "reports (handleDetectionFailure ''again'' (Some ''back'')
      (session five_back_failures (fresh_session ''session_1'' (Some ''m1''))))
   = reports (session five_back_failures (fresh_session ''session_1'' (Some ''m1'')))
     @ [\<lparr>scan_id = [], report_session = ''session_1'',
         report_reason = ''MAX RETRY REACHED: again'',
         report_operation = ''back'', report_merchant = ''m1''\<rparr>]"
  by code_simp

subsection \<open>The flag is set exactly when the count is at the ceiling\<close>




lemma page_step_fields [simp]:
  "pageSessionId (page_step ev s) = pageSessionId s"
  "merchant_of (page_step ev s) = merchant_of s"
  by (cases ev; simp)+

lemma session_fields [simp]:
  "pageSessionId (session evs s) = pageSessionId s"
  "merchant_of (session evs s) = merchant_of s"
  by (induction evs arbitrary: s) simp_all

lemma attempts_simps [simp]:
  "attempts [] = 0"
  "attempts (ev # evs) = (if counted ev then 1 else 0) + attempts evs"
  "attempts (xs @ ys) = attempts xs + attempts ys"
  by (simp_all add: attempts_def)

subsection \<open>Up to the ceiling every attempt is counted, and nothing is reported below it\<close>





subsection \<open>After the ceiling nothing more is reported\<close>







section \<open>Camera selection\<close>

lemma torch_loop_None:
  "torch_loop probe cams = None \<longleftrightarrow> (\<forall>cam\<in>set cams. \<not> verifies probe cam)"
  by (induction cams) (auto simp: verifies_def)

lemma torch_loop_Some:
  "torch_loop probe cams = Some sel \<Longrightarrow>
   \<exists>pre cam post. cams = pre @ cam # post \<and> verifies probe cam
     \<and> (\<forall>x\<in>set pre. \<not> verifies probe x)
     \<and> sel_deviceId sel = Some (deviceId cam) \<and> hasTorch sel \<and> sel_error sel = None
     \<and> \<not> testMode sel"
proof (induction cams)
  case Nil
  then show ?case by simp
next
  case (Cons c cams)
  show ?case
  proof (cases "verifies probe c")
    case True
    then have "c # cams = [] @ c # cams \<and> verifies probe c
       \<and> (\<forall>x\<in>set []. \<not> verifies probe x)
       \<and> sel_deviceId sel = Some (deviceId c) \<and> hasTorch sel \<and> sel_error sel = None
       \<and> \<not> testMode sel"
      using Cons.prems by (auto simp: verifies_def)
    then show ?thesis by blast
  next
    case False
    then have "torch_loop probe cams = Some sel"
      using Cons.prems by (auto simp: verifies_def split: if_splits)
    from Cons.IH [OF this] obtain pre cam post where
      p: "cams = pre @ cam # post" "verifies probe cam" "\<forall>x\<in>set pre. \<not> verifies probe x"
        "sel_deviceId sel = Some (deviceId cam)" "hasTorch sel" "sel_error sel = None"
        "\<not> testMode sel"
      by blast
    then have "c # cams = (c # pre) @ cam # post \<and> verifies probe cam
       \<and> (\<forall>x\<in>set (c # pre). \<not> verifies probe x)
       \<and> sel_deviceId sel = Some (deviceId cam) \<and> hasTorch sel \<and> sel_error sel = None
       \<and> \<not> testMode sel"
      using False by simp
    then show ?thesis by blast
  qed
qed

lemma short_sorted: "length xs \<le> 1 \<Longrightarrow> sorted (map f xs)"
  by (cases xs; cases "tl xs") auto

lemma candidates_sorted:
  "sorted (map (\<lambda>cam. - scoreCameraForScanning (label cam)) (candidates ScanBack devices))"
  by (auto simp: candidates_def Let_def intro!: short_sorted)

lemma candidates_filtered:
  "length (targetCameras ScanBack devices) > 1 \<Longrightarrow> cam \<in> set (candidates ScanBack devices) \<Longrightarrow>
   \<not> isTelephoto (label cam) \<and> \<not> isUltraWide (label cam)"
  by (auto simp: candidates_def Let_def)

lemma candidates_no_devices: "candidates scanSide [] = []"
  by (simp add: candidates_def targetCameras_def Let_def)

lemma no_candidate_is_no_camera:
  "devices \<noteq> [] \<Longrightarrow> candidates scanSide devices = [] \<Longrightarrow>
   sel_error (findBestCameraForScan_with test_mode probe scanSide devices) = Some ''NO_CAMERA''"
  by (simp add: findBestCameraForScan_with_def)

lemma sorted_split_le:
  "sorted (map f (pre @ c # post)) \<Longrightarrow> x \<in> set post \<Longrightarrow> f c \<le> f x"
  by (auto simp: sorted_append)

lemma sorted_head_le: "sorted (map f (c # cs)) \<Longrightarrow> x \<in> set (c # cs) \<Longrightarrow> f c \<le> f x"
  by auto

text \<open>
  C6, as amended. The candidates of a back-side negotiation are the back-facing
  cameras, without the telephoto and ultra-wide labels when there is more than one of
  them, in descending score order. When at least one candidate passes the torch probe,
  the negotiator returns a candidate that passes it, with \<open>hasTorch\<close> set and no error, and
  no candidate that passes the probe has a higher score.
\<close>

theorem negotiator_returns_best_verified:
  assumes "\<exists>cam\<in>set (candidates ScanBack devices). verifies probe cam"
  shows "hasTorch (findBestCameraForScan_with tm probe ScanBack devices)
    \<and> sel_error (findBestCameraForScan_with tm probe ScanBack devices) = None
    \<and> (\<exists>cam\<in>set (candidates ScanBack devices).
          sel_deviceId (findBestCameraForScan_with tm probe ScanBack devices)
            = Some (deviceId cam)
          \<and> verifies probe cam
          \<and> (\<forall>other\<in>set (candidates ScanBack devices).
                verifies probe other \<longrightarrow>
                scoreCameraForScanning (label other) \<le> scoreCameraForScanning (label cam)))
    \<and> (length (targetCameras ScanBack devices) > 1 \<longrightarrow>
         (\<forall>cam\<in>set (candidates ScanBack devices).
            \<not> isTelephoto (label cam) \<and> \<not> isUltraWide (label cam)))"
proof -
  let ?cs = "candidates ScanBack devices"
  let ?r = "findBestCameraForScan_with tm probe ScanBack devices"
  from assms have ne: "?cs \<noteq> []" by auto
  then have dev: "devices \<noteq> []" using candidates_no_devices by metis
  from assms have "torch_loop probe ?cs \<noteq> None" by (simp add: torch_loop_None)
  then obtain sel where sel: "torch_loop probe ?cs = Some sel" by auto
  have r: "?r = sel"
    using ne dev sel by (cases ?cs) (simp_all add: findBestCameraForScan_with_def)
  from torch_loop_Some [OF sel] obtain pre cam post where
    p: "?cs = pre @ cam # post" "verifies probe cam" "\<forall>x\<in>set pre. \<not> verifies probe x"
      "sel_deviceId sel = Some (deviceId cam)" "hasTorch sel" "sel_error sel = None"
    by blast
  have srt: "sorted (map (\<lambda>cam. - scoreCameraForScanning (label cam)) (pre @ cam # post))"
    using candidates_sorted [of devices] p(1) by simp
  have best: "scoreCameraForScanning (label other) \<le> scoreCameraForScanning (label cam)"
    if "other \<in> set ?cs" "verifies probe other" for other
  proof -
    from that p(1,3) have "other = cam \<or> other \<in> set post" by auto
    then show ?thesis using sorted_split_le [OF srt, of other] by auto
  qed
  have "cam \<in> set ?cs" using p(1) by simp
  then show ?thesis using r p best candidates_filtered [of devices] by auto
qed

theorem negotiator_returns_best_verified_witness:
  "map deviceId (candidates ScanBack three_back) = [''d2'', ''d1'']
   \<and> map (\<lambda>cam. scoreCameraForScanning (label cam)) (candidates ScanBack three_back) = [270, 70]
   \<and> \<not> supported (probe_only ''d1'' ''d2'')
   \<and> supported (probe_only ''d1'' ''d1'')
   \<and> sel_deviceId (findBestCameraForScan_with False (probe_only ''d1'') ScanBack three_back)
       = Some ''d1''
   \<and> hasTorch (findBestCameraForScan_with False (probe_only ''d1'') ScanBack three_back)"
proof -
  have a: "\<exists>cam\<in>set (candidates ScanBack three_back). verifies (probe_only ''d1'') cam"
    by code_simp
  have e: "map deviceId (candidates ScanBack three_back) = [''d2'', ''d1'']
     \<and> map (\<lambda>cam. scoreCameraForScanning (label cam)) (candidates ScanBack three_back) = [270, 70]
     \<and> \<not> supported (probe_only ''d1'' ''d2'')
     \<and> supported (probe_only ''d1'' ''d1'')
     \<and> sel_deviceId (findBestCameraForScan_with False (probe_only ''d1'') ScanBack three_back)
         = Some ''d1''"
    by code_simp
  from negotiator_returns_best_verified [OF a, of False] e
  show ?thesis by blast
qed

text \<open>
  Read for all back-facing cameras, the statement fails in two ways. A lone telephoto camera is not excluded: it is
  probed and returned. And a telephoto camera that would pass the probe does not count
  once it is excluded: the negotiator (in test mode, as built) returns the top-scored
  camera that failed the probe.
\<close>

theorem telephoto_tried_or_verified_skipped:
  "isTelephoto ''Back Telephoto Camera''
   \<and> sel_deviceId (findBestCameraForScan probe_all ScanBack lone_telephoto) = Some ''d1''
   \<and> hasTorch (findBestCameraForScan probe_all ScanBack lone_telephoto)
   \<and> supported (probe_only ''d3'' ''d3'')
   \<and> \<not> supported (probe_only ''d3'' ''d2'')
   \<and> sel_deviceId (findBestCameraForScan (probe_only ''d3'') ScanBack three_back) = Some ''d2''
   \<and> \<not> hasTorch (findBestCameraForScan (probe_only ''d3'') ScanBack three_back)"
  by code_simp

text \<open>
  C7, as amended. In a back-side negotiation with at least one candidate left after
  the exclusion step and none that passes the torch probe: with the bypass flag off the
  negotiator fails with \<open>NO_TORCH_CAMERA\<close>; with the flag on it returns the first
  candidate, which no candidate outscores, with \<open>hasTorch = false\<close>. The flag is on in
  the source.
\<close>

theorem no_torch_camera_outcome:
  assumes "candidates ScanBack devices \<noteq> []"
    and "\<forall>cam\<in>set (candidates ScanBack devices). \<not> verifies probe cam"
  shows "sel_error (findBestCameraForScan_with False probe ScanBack devices)
       = Some ''NO_TORCH_CAMERA''
    \<and> sel_deviceId (findBestCameraForScan_with False probe ScanBack devices) = None
    \<and> \<not> hasTorch (findBestCameraForScan_with False probe ScanBack devices)
    \<and> \<not> hasTorch (findBestCameraForScan_with True probe ScanBack devices)
    \<and> testMode (findBestCameraForScan_with True probe ScanBack devices)
    \<and> sel_error (findBestCameraForScan_with True probe ScanBack devices) = None
    \<and> (\<exists>cam others. candidates ScanBack devices = cam # others
          \<and> sel_deviceId (findBestCameraForScan_with True probe ScanBack devices)
              = (if deviceId cam = [] then None else Some (deviceId cam))
          \<and> sel_label (findBestCameraForScan_with True probe ScanBack devices)
              = label_or (label cam) ''Test Camera''
          \<and> (\<forall>other\<in>set (candidates ScanBack devices).
                scoreCameraForScanning (label other) \<le> scoreCameraForScanning (label cam)))
    \<and> findBestCameraForScan probe ScanBack devices
        = findBestCameraForScan_with True probe ScanBack devices"
proof -
  let ?cs = "candidates ScanBack devices"
  from assms(1) obtain cam others where cs: "?cs = cam # others" by (cases ?cs) auto
  have dev: "devices \<noteq> []" using assms(1) candidates_no_devices by metis
  have "torch_loop probe ?cs = None"
    using assms(2) by (simp only: torch_loop_None)
  then have tl: "torch_loop probe (cam # others) = None"
    by (simp only: cs)
  have srt: "sorted (map (\<lambda>cam. - scoreCameraForScanning (label cam)) (cam # others))"
    using candidates_sorted [of devices] cs by simp
  have best: "\<forall>other\<in>set ?cs.
      scoreCameraForScanning (label other) \<le> scoreCameraForScanning (label cam)"
    using sorted_head_le [OF srt] cs by fastforce
  show ?thesis using cs dev tl best
    by (simp add: findBestCameraForScan_with_def findBestCameraForScan_def TEST_MODE_def)
qed

theorem no_torch_camera_outcome_witness:
  "map deviceId (candidates ScanBack three_back) = [''d2'', ''d1'']
   \<and> \<not> supported (probe_none ''d1'') \<and> \<not> supported (probe_none ''d2'')
   \<and> sel_error (findBestCameraForScan_with False probe_none ScanBack three_back)
       = Some ''NO_TORCH_CAMERA''
   \<and> sel_deviceId (findBestCameraForScan probe_none ScanBack three_back) = Some ''d2''
   \<and> \<not> hasTorch (findBestCameraForScan probe_none ScanBack three_back)"
proof -
  have a: "candidates ScanBack three_back \<noteq> []
     \<and> (\<forall>cam\<in>set (candidates ScanBack three_back). \<not> verifies probe_none cam)"
    by code_simp
  have e: "map deviceId (candidates ScanBack three_back) = [''d2'', ''d1'']
     \<and> \<not> supported (probe_none ''d1'') \<and> \<not> supported (probe_none ''d2'')
     \<and> sel_deviceId (findBestCameraForScan probe_none ScanBack three_back) = Some ''d2''"
    by code_simp
  from no_torch_camera_outcome [of three_back probe_none] a e
  show ?thesis by simp
qed

text \<open>
  Without a remaining candidate the statement fails: when the exclusion step leaves none, no candidate
  passes the probe, and the negotiator fails with \<open>NO_CAMERA\<close>, whatever the flag.
\<close>

theorem all_excluded_is_no_camera:
  "candidates ScanBack two_excluded = []
   \<and> sel_error (findBestCameraForScan_with False probe_none ScanBack two_excluded)
       = Some ''NO_CAMERA''
   \<and> sel_error (findBestCameraForScan_with True probe_none ScanBack two_excluded)
       = Some ''NO_CAMERA''"
  by code_simp

end
